theory Spec2Isabelle
  imports Main "HOL-Library.Char_ord" "HOL-Library.List_Lexorder" "HOL-Library.Product_Lexorder"
begin

section \<open>Python values used by virginmedia.py\<close>

text \<open>
  Exceptions that the modelled code can raise. \<open>HTTPError\<close> carries the status code
  that \<open>Response.raise_for_status\<close> complained about; \<open>LoginFailed\<close>,
  \<open>AccessDenied\<close> and \<open>SNMPSetError\<close> are the module's own exception classes.
  \<open>RecursionError\<close> is what the interpreter raises when calls nest deeper than its
  recursion limit, \<open>ConnectionError\<close> what \<open>requests.get\<close> raises when the device
  gives no answer.
\<close>

datatype error =
    ValueError
  | TypeError
  | KeyError
  | IndexError
  | AttributeError
  | UnicodeEncodeError
  | RecursionError
  | ConnectionError
  | HTTPError int
  | LoginFailed
  | AccessDenied
  | SNMPSetError

text \<open>
  What \<open>json.loads\<close> returns. A Python dict keeps insertion order, so an object is an
  association list; \<open>JNull\<close> is Python's \<open>None\<close>.
\<close>

datatype json =
    JNull
  | JBool bool
  | JNum int
  | JStr string
  | JArr "json list"
  | JObj "(string \<times> json) list"

subsection \<open>Slicing, splitting and joining strings\<close>

text \<open>\<open>s[a:b]\<close> for non-negative \<open>a\<close>, \<open>b\<close>: Python clamps both ends to the string.\<close>

definition py_slice :: "nat \<Rightarrow> nat \<Rightarrow> 'a list \<Rightarrow> 'a list" where
  "py_slice a b s = take (b - a) (drop a s)"

text \<open>\<open>s.split(sep)\<close> for a one-character separator: always at least one piece.\<close>

fun py_split :: "char \<Rightarrow> string \<Rightarrow> string list" where
  "py_split sep [] = [[]]"
| "py_split sep (c # cs) =
     (if c = sep then [] # py_split sep cs
      else (case py_split sep cs of
              [] \<Rightarrow> [[c]]
            | p # ps \<Rightarrow> (c # p) # ps))"

text \<open>\<open>sep.join(pieces)\<close>.\<close>

fun py_join :: "string \<Rightarrow> string list \<Rightarrow> string" where
  "py_join sep [] = []"
| "py_join sep [p] = p"
| "py_join sep (p # q # ps) = p @ sep @ py_join sep (q # ps)"

subsection \<open>Integers and their text forms\<close>

text \<open>
  Strings are modelled as ASCII: a character beyond ASCII is neither a digit nor white
  space here. \<open>py_isspace\<close> lists the ASCII characters that \<open>int()\<close> skips around a
  number.
\<close>

definition py_isspace :: "char \<Rightarrow> bool" where
  "py_isspace c = ((of_char c :: nat) \<in> {9, 10, 11, 12, 13, 32})"

definition digit_value :: "char \<Rightarrow> nat option" where
  "digit_value c =
     (let n = (of_char c :: nat) in
      if 48 \<le> n \<and> n \<le> 57 then Some (n - 48)
      else if 97 \<le> n \<and> n \<le> 122 then Some (n - 87)
      else if 65 \<le> n \<and> n \<le> 90 then Some (n - 55)
      else None)"

definition is_digit :: "nat \<Rightarrow> char \<Rightarrow> bool" where
  "is_digit base c = (case digit_value c of None \<Rightarrow> False | Some v \<Rightarrow> v < base)"

definition digits_value :: "nat \<Rightarrow> string \<Rightarrow> nat" where
  "digits_value base ds = foldl (\<lambda>acc c. acc * base + the (digit_value c)) 0 ds"

text \<open>No two underscores in a row.\<close>

fun no_double_underscore :: "string \<Rightarrow> bool" where
  "no_double_underscore (a # b # cs) =
     (\<not> (a = CHR ''_'' \<and> b = CHR ''_'') \<and> no_double_underscore (b # cs))"
| "no_double_underscore _ = True"

text \<open>
  \<open>int(s, base)\<close> for base 10 and base 16, after CPython's \<open>PyLong_FromString\<close>:
  white space around the number, an optional sign, for base 16 an optional \<open>0x\<close> or
  \<open>0X\<close> (which one underscore may follow), then digits that single underscores may
  separate. Anything else is a \<open>ValueError\<close>.
\<close>

definition py_int :: "nat \<Rightarrow> string \<Rightarrow> error + int" where
  "py_int base s =
     (let s1 = dropWhile py_isspace s;
          neg = (s1 \<noteq> [] \<and> hd s1 = CHR ''-'');
          s2 = (if s1 \<noteq> [] \<and> (hd s1 = CHR ''+'' \<or> hd s1 = CHR ''-'') then tl s1 else s1);
          pre = (base = 16 \<and> (take 2 s2 = ''0x'' \<or> take 2 s2 = ''0X''));
          s3 = (if pre then drop 2 s2 else s2);
          s4 = (if pre \<and> take 1 s3 = ''_'' then drop 1 s3 else s3);
          body = takeWhile (\<lambda>c. is_digit base c \<or> c = CHR ''_'') s4;
          rest = dropWhile (\<lambda>c. is_digit base c \<or> c = CHR ''_'') s4
      in if body = [] \<or> hd body = CHR ''_'' \<or> last body = CHR ''_''
            \<or> \<not> no_double_underscore body \<or> \<not> list_all py_isspace rest
         then Inl ValueError
         else let v = int (digits_value base (filter (\<lambda>c. c \<noteq> CHR ''_'') body))
              in Inr (if neg then - v else v))"

definition digit_char :: "nat \<Rightarrow> char" where
  "digit_char d = (if d < 10 then char_of (48 + d) else char_of (87 + d))"

text \<open>The digits of a natural number in the given base, most significant first.\<close>

fun nat_digits :: "nat \<Rightarrow> nat \<Rightarrow> string" where
  "nat_digits base n =
     (if base < 2 \<or> n < base then [digit_char n]
      else nat_digits base (n div base) @ [digit_char (n mod base)])"

declare nat_digits.simps [simp del]

text \<open>\<open>str(n)\<close> and \<open>hex(n)\<close> for an integer \<open>n\<close>.\<close>

definition py_str :: "int \<Rightarrow> string" where
  "py_str n = (if n < 0 then ''-'' @ nat_digits 10 (nat (- n)) else nat_digits 10 (nat n))"

definition py_hex :: "int \<Rightarrow> string" where
  "py_hex n = (if n < 0 then ''-0x'' @ nat_digits 16 (nat (- n)) else ''0x'' @ nat_digits 16 (nat n))"

text \<open>\<open>s.lower()\<close> on ASCII.\<close>

definition py_lower :: "string \<Rightarrow> string" where
  "py_lower s = map (\<lambda>c. let n = (of_char c :: nat) in
                          if 65 \<le> n \<and> n \<le> 90 then char_of (n + 32) else c) s"

section \<open>The value codec\<close>

subsection \<open>extract\_mac\<close>

text \<open>
  \<^verbatim>\<open>
  res = mac[1:3]
  for idx in range(3, 13, 2):
      res += ':' + mac[idx:idx+2]
  return res
  \<close>
\<close>

definition extract_mac :: "string \<Rightarrow> string" where
  "extract_mac mac =
     foldl (\<lambda>res idx. res @ '':'' @ py_slice idx (idx + 2) mac)
           (py_slice 1 3 mac) [3, 5, 7, 9, 11]"

definition is_hex_digit :: "char \<Rightarrow> bool" where
  "is_hex_digit c = is_digit 16 c"

definition is_lower_str :: "string \<Rightarrow> bool" where
  "is_lower_str s = (py_lower s = s)"

subsection \<open>extract\_date\<close>

text \<open>
  \<open>datetime.datetime(year, month, day, hour, minute, second)\<close> of the standard library:
  it raises \<open>ValueError\<close> unless the six fields name a moment of the proleptic Gregorian
  calendar with a year from 1 to 9999.
\<close>

record datetime =
  year :: int
  month :: int
  day :: int
  hour :: int
  minute :: int
  second :: int

definition is_leap :: "int \<Rightarrow> bool" where
  "is_leap y = (y mod 4 = 0 \<and> (y mod 100 \<noteq> 0 \<or> y mod 400 = 0))"

definition days_in_month :: "int \<Rightarrow> int \<Rightarrow> int" where
  "days_in_month y m =
     (if m = 2 then (if is_leap y then 29 else 28)
      else if m = 4 \<or> m = 6 \<or> m = 9 \<or> m = 11 then 30
      else 31)"

definition valid_datetime :: "datetime \<Rightarrow> bool" where
  "valid_datetime dt =
     (1 \<le> year dt \<and> year dt \<le> 9999 \<and> 1 \<le> month dt \<and> month dt \<le> 12
      \<and> 1 \<le> day dt \<and> day dt \<le> days_in_month (year dt) (month dt)
      \<and> 0 \<le> hour dt \<and> hour dt \<le> 23 \<and> 0 \<le> minute dt \<and> minute dt \<le> 59
      \<and> 0 \<le> second dt \<and> second dt \<le> 59)"

definition py_datetime :: "int \<Rightarrow> int \<Rightarrow> int \<Rightarrow> int \<Rightarrow> int \<Rightarrow> int \<Rightarrow> error + datetime" where
  "py_datetime y mo d h mi s =
     (let dt = \<lparr>year = y, month = mo, day = d, hour = h, minute = mi, second = s\<rparr>
      in if valid_datetime dt then Inr dt else Inl ValueError)"

text \<open>
  \<^verbatim>\<open>
  if vmdate is None or vmdate in ["", "$0000000000000000"]:
      return None
  year = int(vmdate[1:5], base=16)
  month = int(vmdate[5:7], base=16)
  dom = int(vmdate[7:9], base=16)
  hour = int(vmdate[9:11], base=16)
  minute = int(vmdate[11:13], base=16)
  second = int(vmdate[13:15], base=16)
  return datetime.datetime(year, month, dom, hour, minute, second)
  \<close>
  The argument is \<open>None\<close> or a string; the result is \<open>None\<close>, a datetime, or the
  exception raised on the way.
\<close>

definition extract_date :: "string option \<Rightarrow> error + datetime option" where
  "extract_date vmdate =
     (case vmdate of
        None \<Rightarrow> Inr None
      | Some s \<Rightarrow>
          if s = [] \<or> s = ''$0000000000000000'' then Inr None
          else (case py_int 16 (py_slice 1 5 s) of Inl e \<Rightarrow> Inl e | Inr yr \<Rightarrow>
               (case py_int 16 (py_slice 5 7 s) of Inl e \<Rightarrow> Inl e | Inr mon \<Rightarrow>
               (case py_int 16 (py_slice 7 9 s) of Inl e \<Rightarrow> Inl e | Inr dm \<Rightarrow>
               (case py_int 16 (py_slice 9 11 s) of Inl e \<Rightarrow> Inl e | Inr hr \<Rightarrow>
               (case py_int 16 (py_slice 11 13 s) of Inl e \<Rightarrow> Inl e | Inr mnt \<Rightarrow>
               (case py_int 16 (py_slice 13 15 s) of Inl e \<Rightarrow> Inl e | Inr sec \<Rightarrow>
               (case py_datetime yr mon dm hr mnt sec of Inl e \<Rightarrow> Inl e
                | Inr dt \<Rightarrow> Inr (Some dt)))))))))"

subsection \<open>extract\_ip and ipv4\_to\_dollar\<close>

text \<open>
  \<^verbatim>\<open>
  ipaddr = (str(int(hexvalue[1:3], base=16))
            + '.' + str(int(hexvalue[3:5], base=16))
            + '.' + str(int(hexvalue[5:7], base=16))
            + '.' + str(int(hexvalue[7:9], base=16)))
  if ipaddr == "0.0.0.0" and zero_is_none:
      return None
  return ipaddr
  \<close>
\<close>

definition extract_ip :: "string \<Rightarrow> bool \<Rightarrow> error + string option" where
  "extract_ip hexvalue zero_is_none =
     (case py_int 16 (py_slice 1 3 hexvalue) of Inl e \<Rightarrow> Inl e | Inr a \<Rightarrow>
     (case py_int 16 (py_slice 3 5 hexvalue) of Inl e \<Rightarrow> Inl e | Inr b \<Rightarrow>
     (case py_int 16 (py_slice 5 7 hexvalue) of Inl e \<Rightarrow> Inl e | Inr c \<Rightarrow>
     (case py_int 16 (py_slice 7 9 hexvalue) of Inl e \<Rightarrow> Inl e | Inr d \<Rightarrow>
        (let ipaddr = py_str a @ ''.'' @ py_str b @ ''.'' @ py_str c @ ''.'' @ py_str d
         in if ipaddr = ''0.0.0.0'' \<and> zero_is_none then Inr None
            else Inr (Some ipaddr))))))"

text \<open>The default of the keyword argument \<open>zero_is_none\<close>.\<close>

definition zero_is_none_default :: bool where
  "zero_is_none_default = True"

text \<open>
  \<^verbatim>\<open>
  def tohex(decimal):
      return "{0:0>2s}".format(hex(int(decimal))[2:].lower())
  return "$" + ''.join(map(tohex, address.split('.')))
  \<close>
  The format \<open>0>2s\<close> pads on the left with \<open>0\<close> up to two characters and never cuts.
\<close>

definition tohex :: "string \<Rightarrow> error + string" where
  "tohex decimal =
     (case py_int 10 decimal of
        Inl e \<Rightarrow> Inl e
      | Inr n \<Rightarrow> (let h = py_lower (drop 2 (py_hex n))
                  in Inr (replicate (2 - length h) (CHR ''0'') @ h)))"

text \<open>\<open>map\<close> over the pieces, stopping at the first exception.\<close>

fun map_err :: "('a \<Rightarrow> error + 'b) \<Rightarrow> 'a list \<Rightarrow> error + 'b list" where
  "map_err f [] = Inr []"
| "map_err f (x # xs) =
     (case f x of
        Inl e \<Rightarrow> Inl e
      | Inr y \<Rightarrow> (case map_err f xs of Inl e \<Rightarrow> Inl e | Inr ys \<Rightarrow> Inr (y # ys)))"

definition ipv4_to_dollar :: "string \<Rightarrow> error + string" where
  "ipv4_to_dollar address =
     (case map_err tohex (py_split (CHR ''.'') address) of
        Inl e \<Rightarrow> Inl e
      | Inr hs \<Rightarrow> Inr (''$'' @ concat hs))"

text \<open>The dotted-quad text of four octets, each written as \<open>str\<close> writes it.\<close>

definition dotted_quad :: "nat \<Rightarrow> nat \<Rightarrow> nat \<Rightarrow> nat \<Rightarrow> string" where
  "dotted_quad a b c d =
     py_str (int a) @ ''.'' @ py_str (int b) @ ''.'' @ py_str (int c) @ ''.'' @ py_str (int d)"

text \<open>Encoding an address and decoding the wire form again.\<close>

definition ipv4_roundtrip :: "string \<Rightarrow> bool \<Rightarrow> error + string option" where
  "ipv4_roundtrip address zero_is_none =
     (case ipv4_to_dollar address of
        Inl e \<Rightarrow> Inl e
      | Inr wire \<Rightarrow> extract_ip wire zero_is_none)"

section \<open>The hub and the device it talks to\<close>

text \<open>
  The fields of \<open>Hub\<close> that the modelled methods read or write. The call and timing
  counters (\<open>counters\<close>, filled by \<open>collect_stats\<close> and \<open>_increment_counter\<close>) and the
  warnings are written and never read by the code below; they are left out.
\<close>

record hub =
  credential :: "string option"
  hub_url :: string
  username :: "string option"
  password :: "string option"
  nonce :: "(string \<times> string) list"
  nonce_str :: string
  modelname :: json
  family :: json
  unapplied_settings :: bool

text \<open>A response of \<open>requests\<close>: \<open>body\<close> stands for both \<open>content\<close> and \<open>text\<close>.\<close>

record response =
  status_code :: int
  body :: string

record request =
  req_url :: string
  req_params :: "(string \<times> string) list"
  req_cookie :: "string option"

text \<open>
  The device is a script: the responses it will give, in order, whatever is asked. The
  trace records what the client did to the outside: the requests sent and the
  \<open>time.sleep\<close> calls with their duration in seconds.
\<close>

datatype event = Requested request | Slept nat

record world =
  script :: "response list"
  trace :: "event list"

text \<open>
  Library functions whose results the methods only pass on: \<open>json.loads\<close> and
  \<open>base64.b64decode\<close> (\<open>None\<close> when they raise), and \<open>base64.b64encode\<close>.
\<close>

record lib =
  json_loads :: "string \<Rightarrow> json option"
  b64decode :: "string \<Rightarrow> string option"
  b64encode :: "string \<Rightarrow> string"

type_synonym 'a outcome = "(error + 'a) \<times> hub \<times> world"

text \<open>\<open>requests.get\<close>: the next response of the script; none left is a failed connection.\<close>

definition requests_get :: "request \<Rightarrow> world \<Rightarrow> (error + response) \<times> world" where
  "requests_get rq w =
     (case script w of
        [] \<Rightarrow> (Inl ConnectionError, w\<lparr>trace := trace w @ [Requested rq]\<rparr>)
      | r # rs \<Rightarrow> (Inr r, w\<lparr>script := rs, trace := trace w @ [Requested rq]\<rparr>))"

text \<open>\<open>Response.raise_for_status\<close>: an \<open>HTTPError\<close> for every 4xx and 5xx status.\<close>

definition raise_for_status :: "response \<Rightarrow> error + unit" where
  "raise_for_status r =
     (if 400 \<le> status_code r \<and> status_code r < 600 then Inl (HTTPError (status_code r))
      else Inr ())"

text \<open>\<open>is_loggedin\<close>: \<open>self._credential is not None\<close>.\<close>

definition is_loggedin :: "hub \<Rightarrow> bool" where
  "is_loggedin h = (credential h \<noteq> None)"

text \<open>The cookie of a request: \<open>if self._credential\<close> is false for \<open>None\<close> and for the empty string.\<close>

definition cookie_of :: "hub \<Rightarrow> string option" where
  "cookie_of h = (case credential h of None \<Rightarrow> None | Some c \<Rightarrow> if c = [] then None else Some c)"

subsection \<open>Dictionaries\<close>

definition dict_get :: "('k \<times> 'v) list \<Rightarrow> 'k \<Rightarrow> 'v option" where
  "dict_get d k = map_of d k"

fun dict_set :: "('k \<times> 'v) list \<Rightarrow> 'k \<Rightarrow> 'v \<Rightarrow> ('k \<times> 'v) list" where
  "dict_set [] k v = [(k, v)]"
| "dict_set (p # ps) k v = (if fst p = k then (k, v) # ps else p # dict_set ps k v)"

definition dict_del :: "('k \<times> 'v) list \<Rightarrow> 'k \<Rightarrow> ('k \<times> 'v) list" where
  "dict_del d k = filter (\<lambda>p. fst p \<noteq> k) d"

text \<open>\<open>d.update(other)\<close>.\<close>

definition dict_update :: "('k \<times> 'v) list \<Rightarrow> ('k \<times> 'v) list \<Rightarrow> ('k \<times> 'v) list" where
  "dict_update d other = foldl (\<lambda>acc p. dict_set acc (fst p) (snd p)) d other"

text \<open>\<open>attrs.get(key)\<close> on a JSON object: \<open>None\<close> for a missing key.\<close>

definition json_get :: "(string \<times> json) list \<Rightarrow> string \<Rightarrow> json" where
  "json_get d k = (case dict_get d k of None \<Rightarrow> JNull | Some v \<Rightarrow> v)"

section \<open>The request layer: Hub.\_get\<close>

text \<open>
  \<^verbatim>\<open>
  sleep = 1
  while True:
      if self._credential:
          resp = requests.get(self._url + '/' + url, cookies={"credential": self._credential}, ...)
      else:
          resp = requests.get(self._url + '/' + url, ...)
      if resp.status_code == 401:
          retry401 -= 1
          if retry401 > 0 and self.is_loggedin:
              self.login(username=self._username, password=self._password)
              continue
      if resp.status_code == 500:
          retry500 -= 1
          if retry500 > 0:
              time.sleep(sleep)
              sleep *= 2
              continue
      break
  \<close>
  The loop, with the call of \<open>self.login\<close> as the parameter \<open>relogin\<close>. It ends with the
  response that left the loop, or with the exception of \<open>requests.get\<close> or of the login.
\<close>

function get_loop ::
  "(hub \<Rightarrow> world \<Rightarrow> unit outcome) \<Rightarrow> string \<Rightarrow> (string \<times> string) list \<Rightarrow> int \<Rightarrow> int \<Rightarrow> nat
     \<Rightarrow> hub \<Rightarrow> world \<Rightarrow> response outcome" where
  "get_loop relogin u ps retry401 retry500 sleep h w =
     (case requests_get \<lparr>req_url = hub_url h @ ''/'' @ u, req_params = ps,
                          req_cookie = cookie_of h\<rparr> w of
        (Inl e, w1) \<Rightarrow> (Inl e, h, w1)
      | (Inr resp, w1) \<Rightarrow>
          if status_code resp = 401 \<and> retry401 - 1 > 0 \<and> is_loggedin h then
            (case relogin h w1 of
               (Inl e, h2, w2) \<Rightarrow> (Inl e, h2, w2)
             | (Inr _, h2, w2) \<Rightarrow> get_loop relogin u ps (retry401 - 1) retry500 sleep h2 w2)
          else if status_code resp = 500 \<and> retry500 - 1 > 0 then
            get_loop relogin u ps retry401 (retry500 - 1) (sleep * 2) h
              (w1\<lparr>trace := trace w1 @ [Slept sleep]\<rparr>)
          else (Inr resp, h, w1))"
  by pat_completeness auto
termination
  by (relation "measure (\<lambda>(relogin, u, ps, retry401, retry500, sleep, h, w).
                           nat retry401 + nat retry500)") auto

declare get_loop.simps [simp del]

text \<open>
  \<^verbatim>\<open>
  resp.raise_for_status()
  if resp.status_code == 401:
      raise AccessDenied(url)
  return resp
  \<close>
\<close>

definition get_finish :: "response outcome \<Rightarrow> response outcome" where
  "get_finish r =
     (case r of
        (Inl e, h, w) \<Rightarrow> (Inl e, h, w)
      | (Inr resp, h, w) \<Rightarrow>
          (case raise_for_status resp of
             Inl e \<Rightarrow> (Inl e, h, w)
           | Inr _ \<Rightarrow> if status_code resp = 401 then (Inl AccessDenied, h, w)
                      else (Inr resp, h, w)))"

text \<open>The defaults of \<open>retry401\<close> and \<open>retry500\<close> in the signature of \<open>_get\<close>.\<close>

definition retry401_default :: int where
  "retry401_default = 5"

definition retry500_default :: int where
  "retry500_default = 3"

type_synonym getter =
  "string \<Rightarrow> (string \<times> string) list \<Rightarrow> int \<Rightarrow> int \<Rightarrow> hub \<Rightarrow> world \<Rightarrow> response outcome"

section \<open>Reading values: snmp\_gets, snmp\_get\<close>

text \<open>
  \<^verbatim>\<open>
  resp = self._get("snmpGet?oids=" + ';'.join(oids) + ';&' + self._nonce_str)
  cont = resp.content
  try:
      resp = json.loads(cont)
  except ValueError:
      warnings.warn('Response content:', cont)
      raise
  return resp
  \<close>
  In the handler, \<open>warnings.warn\<close> gets the bytes \<open>cont\<close> as its category and raises
  \<open>TypeError\<close>, so that is what leaves the method. The methods below take the \<open>_get\<close>
  they call as the parameter \<open>get\<close>.
\<close>

definition snmp_gets_with :: "getter \<Rightarrow> lib \<Rightarrow> string list \<Rightarrow> hub \<Rightarrow> world \<Rightarrow> json outcome" where
  "snmp_gets_with get L oids h w =
     (case get (''snmpGet?oids='' @ py_join '';'' oids @ '';&'' @ nonce_str h) []
             retry401_default retry500_default h w of
        (Inl e, h1, w1) \<Rightarrow> (Inl e, h1, w1)
      | (Inr resp, h1, w1) \<Rightarrow>
          (case json_loads L (body resp) of
             None \<Rightarrow> (Inl TypeError, h1, w1)
           | Some j \<Rightarrow> (Inr j, h1, w1)))"

text \<open>
  \<^verbatim>\<open>
  resp = self.snmp_gets(oids=[oid])
  return resp[oid]
  \<close>
  Subscripting a dict without the key is a \<open>KeyError\<close>; a JSON value that is no dict
  cannot be subscripted with a string.
\<close>

definition snmp_get_with :: "getter \<Rightarrow> lib \<Rightarrow> string \<Rightarrow> hub \<Rightarrow> world \<Rightarrow> json outcome" where
  "snmp_get_with get L oid h w =
     (case snmp_gets_with get L [oid] h w of
        (Inl e, h1, w1) \<Rightarrow> (Inl e, h1, w1)
      | (Inr j, h1, w1) \<Rightarrow>
          (case j of
             JObj d \<Rightarrow> (case dict_get d oid of
                          None \<Rightarrow> (Inl KeyError, h1, w1)
                        | Some v \<Rightarrow> (Inr v, h1, w1))
           | _ \<Rightarrow> (Inl TypeError, h1, w1)))"

text \<open>
  Modelled from the spec: the module \<open>snmp\<close> with its descriptor \<open>snmp.Attribute\<close> is not
  part of the sources. The spec calls a named device attribute a fixed OID bound through
  the codec, so reading \<open>auth_username\<close>, declared as
  \<open>snmp.Attribute("1.3.6.1.4.1.4115.1.20.1.1.5.16.1.2.1")\<close> with no translator, is
  \<open>snmp_get\<close> of that OID, as \<open>snmp_property.__get__\<close> does for its own OID.
\<close>

definition auth_username_oid :: string where
  "auth_username_oid = ''1.3.6.1.4.1.4115.1.20.1.1.5.16.1.2.1''"

definition auth_username_with :: "getter \<Rightarrow> lib \<Rightarrow> hub \<Rightarrow> world \<Rightarrow> json outcome" where
  "auth_username_with get L h w = snmp_get_with get L auth_username_oid h w"

section \<open>The session: login, logout\<close>

text \<open>\<open>s.encode('ascii')\<close> raises \<open>UnicodeEncodeError\<close> on a character beyond ASCII.\<close>

definition is_ascii :: "string \<Rightarrow> bool" where
  "is_ascii s = list_all (\<lambda>c. (of_char c :: nat) < 128) s"

text \<open>
  \<^verbatim>\<open>
  def _params(self, keyvalues):
      res = {}
      res.update(self._nonce)
      res.update(keyvalues)
      return res
  \<close>
\<close>

definition params :: "hub \<Rightarrow> (string \<times> string) list \<Rightarrow> (string \<times> string) list" where
  "params h keyvalues = dict_update (dict_update [] (nonce h)) keyvalues"

text \<open>
  The user name a login uses: the one given or, when \<open>not username\<close> holds (for \<open>None\<close>
  and for the empty string), the device's \<open>auth_username\<close>.
\<close>

definition resolve_username_with ::
  "getter \<Rightarrow> lib \<Rightarrow> string option \<Rightarrow> hub \<Rightarrow> world \<Rightarrow> json outcome" where
  "resolve_username_with get L uname h w =
     (case uname of
        None \<Rightarrow> auth_username_with get L h w
      | Some u \<Rightarrow> if u = [] then auth_username_with get L h w else (Inr (JStr u), h, w))"

text \<open>
  \<^verbatim>\<open>
  def login(self, username=None, password="admin"):
      if not username:
          username = self.auth_username
      resp = self._get('login', retry401=0,
                       params=self._params({
                           "arg": base64.b64encode((username + ':' + password).encode('ascii'))}))
      if not resp.content:
          raise LoginFailed(...)
      try:
          attrs = json.loads(base64.b64decode(resp.content))
      except Exception:
          raise LoginFailed(...)
      if attrs.get("gwWan") == "f" and attrs.get("conType") == "LAN":
          ...                               # warnings only
      self._credential = resp.text
      self._username = username
      self._password = password
      self._modelname = attrs.get("modelname")
      self._family = attrs.get("family")
  \<close>
  The concatenation raises \<open>TypeError\<close> when the user name read from the device is
  no string or the password is \<open>None\<close>. \<open>attrs.get\<close> raises \<open>AttributeError\<close> when
  the envelope is no JSON object.
\<close>

definition login_with ::
  "getter \<Rightarrow> lib \<Rightarrow> string option \<Rightarrow> string option \<Rightarrow> hub \<Rightarrow> world \<Rightarrow> unit outcome" where
  "login_with get L uname pw h w =
     (case resolve_username_with get L uname h w of
        (Inl e, h1, w1) \<Rightarrow> (Inl e, h1, w1)
      | (Inr uj, h1, w1) \<Rightarrow>
          (case (uj, pw) of
             (JStr u, Some p) \<Rightarrow>
               if \<not> is_ascii (u @ '':'' @ p) then (Inl UnicodeEncodeError, h1, w1)
               else
                 (case get ''login'' (params h1 [(''arg'', b64encode L (u @ '':'' @ p))]) 0 retry500_default h1 w1 of
                    (Inl e, h2, w2) \<Rightarrow> (Inl e, h2, w2)
                  | (Inr resp, h2, w2) \<Rightarrow>
                      if body resp = [] then (Inl LoginFailed, h2, w2)
                      else
                        (case b64decode L (body resp) of
                           None \<Rightarrow> (Inl LoginFailed, h2, w2)
                         | Some txt \<Rightarrow>
                             (case json_loads L txt of
                                None \<Rightarrow> (Inl LoginFailed, h2, w2)
                              | Some attrs \<Rightarrow>
                                  (case attrs of
                                     JObj d \<Rightarrow>
                                       (Inr (),
                                        h2\<lparr>credential := Some (body resp),
                                           username := Some u,
                                           password := Some p,
                                           modelname := json_get d ''modelname'',
                                           family := json_get d ''family''\<rparr>,
                                        w2)
                                   | _ \<Rightarrow> (Inl AttributeError, h2, w2)))))
           | _ \<Rightarrow> (Inl TypeError, h1, w1)))"

text \<open>
  \<open>_get\<close> and \<open>login\<close> call each other: a 401 inside \<open>_get\<close> logs in again, and a login
  without a user name reads \<open>auth_username\<close> through \<open>_get\<close>. The first argument of
  \<open>get_at\<close> is the number of activations of \<open>_get\<close> that may still nest before the
  interpreter gives up with \<open>RecursionError\<close>.
\<close>

primrec get_at :: "nat \<Rightarrow> lib \<Rightarrow> getter" where
  "get_at 0 L = (\<lambda>u ps retry401 retry500 h w. (Inl RecursionError, h, w))"
| "get_at (Suc n) L =
     (\<lambda>u ps retry401 retry500 h w.
        get_finish
          (get_loop (\<lambda>h' w'. login_with (get_at n L) L (username h') (password h') h' w')
                    u ps retry401 retry500 1 h w))"

text \<open>\<open>Hub._get(url, retry401, retry500, params=...)\<close> and its default budgets.\<close>

definition hub_get :: "nat \<Rightarrow> lib \<Rightarrow> getter" where
  "hub_get depth L = get_at depth L"

definition login :: "nat \<Rightarrow> lib \<Rightarrow> string option \<Rightarrow> string option \<Rightarrow> hub \<Rightarrow> world \<Rightarrow> unit outcome" where
  "login depth L uname pw h w = login_with (hub_get depth L) L uname pw h w"

definition snmp_gets :: "nat \<Rightarrow> lib \<Rightarrow> string list \<Rightarrow> hub \<Rightarrow> world \<Rightarrow> json outcome" where
  "snmp_gets depth L oids h w = snmp_gets_with (hub_get depth L) L oids h w"

definition snmp_get :: "nat \<Rightarrow> lib \<Rightarrow> string \<Rightarrow> hub \<Rightarrow> world \<Rightarrow> json outcome" where
  "snmp_get depth L oid h w = snmp_get_with (hub_get depth L) L oid h w"

definition resolve_username :: "nat \<Rightarrow> lib \<Rightarrow> string option \<Rightarrow> hub \<Rightarrow> world \<Rightarrow> json outcome" where
  "resolve_username depth L uname h w = resolve_username_with (hub_get depth L) L uname h w"

text \<open>
  \<^verbatim>\<open>
  def logout(self):
      if self.is_loggedin:
          try:
              self._get('logout', retry401=0, params=self._nonce)
          finally:
              self._credential = None
              self._username = None
              self._password = None
  \<close>
\<close>

definition logout :: "nat \<Rightarrow> lib \<Rightarrow> hub \<Rightarrow> world \<Rightarrow> unit outcome" where
  "logout depth L h w =
     (if is_loggedin h then
        (case hub_get depth L ''logout'' (nonce h) 0 retry500_default h w of
           (r, h1, w1) \<Rightarrow>
             (case r of Inl e \<Rightarrow> Inl e | Inr _ \<Rightarrow> Inr (),
              h1\<lparr>credential := None, username := None, password := None\<rparr>,
              w1))
      else (Inr (), h, w))"

text \<open>The session data that a login sets.\<close>

definition session_of :: "hub \<Rightarrow> string option \<times> string option \<times> string option \<times> json \<times> json" where
  "session_of h = (credential h, username h, password h, modelname h, family h)"

section \<open>Writing values: snmp\_set, apply\_settings\<close>

text \<open>
  A member of the enumeration \<open>snmp.Type\<close>, which is not part of the sources: what the
  code asks of it is whether it is \<open>snmp.Type.STRING\<close> and the text of its \<open>value\<close>.
\<close>

record snmp_type =
  is_STRING :: bool
  type_value :: string

text \<open>The values that callers set: integers and strings, with \<open>str(value)\<close>.\<close>

datatype pyvalue = VInt int | VStr string

fun str_of :: "pyvalue \<Rightarrow> string" where
  "str_of (VInt n) = py_str n"
| "str_of (VStr s) = s"

text \<open>\<open>s.replace('$', '%24')\<close>.\<close>

definition replace_dollar :: "string \<Rightarrow> string" where
  "replace_dollar s = concat (map (\<lambda>c. if c = CHR ''$'' then ''%24'' else [c]) s)"

text \<open>
  \<^verbatim>\<open>
  oid_value = oid
  if value is not None:
      if datatype == snmp.Type.STRING:
          oid_value += '=' + str(value).replace('$', '%24')
      else:
          oid_value += '=' + str(value)
  oid_value += ';'
  if datatype is not None and str(datatype.value) != "":
      oid_value += str(datatype.value)
  \<close>
\<close>

definition oid_value_of :: "string \<Rightarrow> pyvalue option \<Rightarrow> snmp_type option \<Rightarrow> string" where
  "oid_value_of oid val datatype =
     oid
     @ (case val of
          None \<Rightarrow> []
        | Some v \<Rightarrow>
            (if (case datatype of None \<Rightarrow> False | Some t \<Rightarrow> is_STRING t)
             then ''='' @ replace_dollar (str_of v)
             else ''='' @ str_of v))
     @ '';''
     @ (case datatype of None \<Rightarrow> [] | Some t \<Rightarrow> type_value t)"

text \<open>
  \<^verbatim>\<open>
  resp = self._get("snmpSet?oid={oid};&{nonce}".format(oid=oid_value, nonce=self._nonce_str))
  resp.raise_for_status()
  if not oid in resp.json().keys():
      raise SNMPSetError(self, oid, resp.text)
  if resp.status_code == 304:
      return False
  self._unapplied_settings = True
  return True
  \<close>
  \<open>resp.json()\<close> raises a \<open>ValueError\<close> when the body is no JSON, and a JSON value that is
  no object has no \<open>keys\<close>.
\<close>

definition snmp_set ::
  "nat \<Rightarrow> lib \<Rightarrow> string \<Rightarrow> pyvalue option \<Rightarrow> snmp_type option \<Rightarrow> hub \<Rightarrow> world \<Rightarrow> bool outcome" where
  "snmp_set depth L oid val datatype h w =
     (case hub_get depth L
             (''snmpSet?oid='' @ oid_value_of oid val datatype @ '';&'' @ nonce_str h) []
             retry401_default retry500_default h w of
        (Inl e, h1, w1) \<Rightarrow> (Inl e, h1, w1)
      | (Inr resp, h1, w1) \<Rightarrow>
          (case raise_for_status resp of
             Inl e \<Rightarrow> (Inl e, h1, w1)
           | Inr _ \<Rightarrow>
               (case json_loads L (body resp) of
                  None \<Rightarrow> (Inl ValueError, h1, w1)
                | Some j \<Rightarrow>
                    (case j of
                       JObj d \<Rightarrow>
                         if oid \<notin> set (map fst d) then (Inl SNMPSetError, h1, w1)
                         else if status_code resp = 304 then (Inr False, h1, w1)
                         else (Inr True, h1\<lparr>unapplied_settings := True\<rparr>, w1)
                     | _ \<Rightarrow> (Inl AttributeError, h1, w1)))))"

text \<open>
  \<^verbatim>\<open>
  def apply_settings(self):
      if not self._unapplied_settings:
          return
      self.snmp_set("1.3.6.1.4.1.4115.1.20.1.1.9.0", 1, snmp.Type.INT)
      self._unapplied_settings = False
  \<close>
  \<open>type_INT\<close> stands for \<open>snmp.Type.INT\<close>.
\<close>

definition commit_oid :: string where
  "commit_oid = ''1.3.6.1.4.1.4115.1.20.1.1.9.0''"

definition apply_settings :: "nat \<Rightarrow> lib \<Rightarrow> snmp_type \<Rightarrow> hub \<Rightarrow> world \<Rightarrow> unit outcome" where
  "apply_settings depth L type_INT h w =
     (if \<not> unapplied_settings h then (Inr (), h, w)
      else
        (case snmp_set depth L commit_oid (Some (VInt 1)) (Some type_INT) h w of
           (Inl e, h1, w1) \<Rightarrow> (Inl e, h1, w1)
         | (Inr _, h1, w1) \<Rightarrow> (Inr (), h1\<lparr>unapplied_settings := False\<rparr>, w1)))"

section \<open>Walking: snmp\_walk\<close>

definition error_line :: string where
  "error_line = ''Error in OID formatting!''"

text \<open>
  \<^verbatim>\<open>
  jsondata = "\n".join([x for x in jsondata.split("\n") if x != "Error in OID formatting!"])
  \<close>
\<close>

definition strip_error_lines :: "string \<Rightarrow> string" where
  "strip_error_lines jsondata =
     py_join ''\<newline>'' (filter (\<lambda>x. x \<noteq> error_line) (py_split (CHR ''\<newline>'') jsondata))"

text \<open>
  \<^verbatim>\<open>
  if result.get("1") == "Finish":
      del result["1"]
  \<close>
\<close>

definition strip_finish :: "(string \<times> json) list \<Rightarrow> (string \<times> json) list" where
  "strip_finish result =
     (if json_get result ''1'' = JStr ''Finish'' then dict_del result ''1'' else result)"

text \<open>
  \<^verbatim>\<open>
  jsondata = self._get('walk?oids=%s;%s' % (oid, self._nonce_str)).text
  jsondata = "\n".join(...)
  result = json.loads(jsondata)
  if result.get("1") == "Finish":
      del result["1"]
  return result
  \<close>
  \<open>json.loads\<close> raises a \<open>ValueError\<close> on text that is no JSON; a JSON value that is no
  object has no \<open>get\<close>.
\<close>

definition snmp_walk ::
  "nat \<Rightarrow> lib \<Rightarrow> string \<Rightarrow> hub \<Rightarrow> world \<Rightarrow> ((string \<times> json) list) outcome" where
  "snmp_walk depth L oid h w =
     (case hub_get depth L (''walk?oids='' @ oid @ '';'' @ nonce_str h) []
             retry401_default retry500_default h w of
        (Inl e, h1, w1) \<Rightarrow> (Inl e, h1, w1)
      | (Inr resp, h1, w1) \<Rightarrow>
          (case json_loads L (strip_error_lines (body resp)) of
             None \<Rightarrow> (Inl ValueError, h1, w1)
           | Some j \<Rightarrow>
               (case j of
                  JObj result \<Rightarrow> (Inr (strip_finish result), h1, w1)
                | _ \<Rightarrow> (Inl AttributeError, h1, w1))))"

section \<open>Tables: snmp\_table\<close>

text \<open>
  \<^verbatim>\<open>
  def col_num(walked_oid):
      return walked_oid[len(top_oid)+1:].split('.')[0]

  def row_num(walked_oid):
      return int(walked_oid[len(top_oid)+1:].split('.')[1])
  \<close>
  \<open>split\<close> gives at least one piece, so \<open>col_num\<close> never fails; \<open>row_num\<close> raises
  \<open>IndexError\<close> when there is no second piece and \<open>ValueError\<close> when it is no integer.
\<close>

definition col_num :: "string \<Rightarrow> string \<Rightarrow> string" where
  "col_num top_oid walked_oid =
     (case py_split (CHR ''.'') (drop (length top_oid + 1) walked_oid) of
        [] \<Rightarrow> []
      | c # _ \<Rightarrow> c)"

definition row_num :: "string \<Rightarrow> string \<Rightarrow> error + int" where
  "row_num top_oid walked_oid =
     (case py_split (CHR ''.'') (drop (length top_oid + 1) walked_oid) of
        _ # r # _ \<Rightarrow> py_int 10 r
      | _ \<Rightarrow> Inl IndexError)"

text \<open>
  \<open>collections.namedtuple\<close> raises \<open>ValueError\<close> unless every field name is an
  identifier and no keyword, none starts with an underscore and none occurs twice.
\<close>

definition is_ident_start :: "char \<Rightarrow> bool" where
  "is_ident_start c =
     (let n = (of_char c :: nat) in (65 \<le> n \<and> n \<le> 90) \<or> (97 \<le> n \<and> n \<le> 122) \<or> n = 95)"

definition is_ident_char :: "char \<Rightarrow> bool" where
  "is_ident_char c = (is_ident_start c \<or> (48 \<le> (of_char c :: nat) \<and> (of_char c :: nat) \<le> 57))"

definition isidentifier :: "string \<Rightarrow> bool" where
  "isidentifier s = (case s of [] \<Rightarrow> False | c # cs \<Rightarrow> is_ident_start c \<and> list_all is_ident_char cs)"

definition kwlist :: "string list" where
  "kwlist = [''False'', ''None'', ''True'', ''and'', ''as'', ''assert'', ''async'', ''await'',
             ''break'', ''class'', ''continue'', ''def'', ''del'', ''elif'', ''else'', ''except'',
             ''finally'', ''for'', ''from'', ''global'', ''if'', ''import'', ''in'', ''is'',
             ''lambda'', ''nonlocal'', ''not'', ''or'', ''pass'', ''raise'', ''return'', ''try'',
             ''while'', ''with'', ''yield'']"

definition namedtuple_ok :: "string list \<Rightarrow> bool" where
  "namedtuple_ok field_names =
     (list_all (\<lambda>n. isidentifier n \<and> n \<notin> set kwlist \<and> take 1 n \<noteq> ''_'') field_names
      \<and> distinct field_names)"

text \<open>
  A row: the namedtuple \<open>SNMPRow\<close> with one field per column, in the order of
  \<open>columns.values()\<close>, and the field \<open>row_idx\<close>. A field that no entry fills keeps its
  default \<open>None\<close>.
\<close>

record snmp_row =
  row_idx :: int
  cells :: "(string \<times> json) list"

text \<open>\<open>itertools.groupby\<close>: runs of neighbours with the same key.\<close>

function groupby :: "('a \<Rightarrow> 'k) \<Rightarrow> 'a list \<Rightarrow> ('k \<times> 'a list) list" where
  "groupby f [] = []"
| "groupby f (x # xs) =
     (f x, x # takeWhile (\<lambda>y. f y = f x) xs) # groupby f (dropWhile (\<lambda>y. f y = f x) xs)"
  by pat_completeness auto
termination
  by (relation "measure (\<lambda>(f, xs). length xs)") (auto simp: length_dropWhile_le less_Suc_eq_le)

text \<open>The sort key \<open>(row_num(x[0]), col_num(x[0]))\<close> of an entry, kept beside it.\<close>

definition keyed :: "string \<Rightarrow> string \<times> json \<Rightarrow> error + ((int \<times> string) \<times> (string \<times> json))" where
  "keyed top_oid x =
     (case row_num top_oid (fst x) of
        Inl e \<Rightarrow> Inl e
      | Inr r \<Rightarrow> Inr ((r, col_num top_oid (fst x)), x))"

text \<open>\<open>columns[col_num(ccc[0])]\<close> beside the value \<open>ccc[1]\<close>.\<close>

definition named_cell ::
  "string \<Rightarrow> (string \<times> string) list \<Rightarrow> string \<times> json \<Rightarrow> error + (string \<times> json)" where
  "named_cell top_oid columns x =
     (case dict_get columns (col_num top_oid (fst x)) of
        None \<Rightarrow> Inl KeyError
      | Some name \<Rightarrow> Inr (name, snd x))"

text \<open>
  \<^verbatim>\<open>
  therow = rowcls(**{columns[col_num(ccc[0])]: ccc[1]
                     for ccc in val})._replace(row_idx=dummy)
  \<close>
\<close>

definition make_row ::
  "string \<Rightarrow> (string \<times> string) list \<Rightarrow> int \<Rightarrow> (string \<times> json) list \<Rightarrow> error + snmp_row" where
  "make_row top_oid columns dummy val =
     (case map_err (named_cell top_oid columns) val of
        Inl e \<Rightarrow> Inl e
      | Inr kvs \<Rightarrow>
          (let kw = dict_update [] kvs
           in Inr \<lparr>row_idx = dummy,
                   cells = map (\<lambda>name. (name, json_get kw name)) (map snd columns)\<rparr>))"

text \<open>
  \<^verbatim>\<open>
  rowcls = collections.namedtuple('SNMPRow',
                                  field_names=list(columns.values()) + ['row_idx'],
                                  defaults=itertools.repeat(None, len(columns)+1))
  ...
  results = [x for x in self.snmp_walk(top_oid).items()
             if col_num(x[0]) in columns]
  results.sort(key=lambda x: (row_num(x[0]), col_num(x[0])))
  tabrows = []
  for (dummy, val) in itertools.groupby(results, lambda x: row_num(x[0])):
      therow = ...
      tabrows.append(therow)
  \<close>
  \<open>columns\<close> is a dict, an association list with distinct keys. \<open>list.sort\<close> computes the
  key of every element first and is stable, as \<open>sort_key\<close> is.
\<close>

definition table_rows ::
  "string \<Rightarrow> (string \<times> string) list \<Rightarrow> (string \<times> json) list \<Rightarrow> error + snmp_row list" where
  "table_rows top_oid columns walked =
     (if \<not> namedtuple_ok (map snd columns @ [''row_idx'']) then Inl ValueError
      else
        (let results = filter (\<lambda>x. col_num top_oid (fst x) \<in> set (map fst columns)) walked
         in case map_err (keyed top_oid) results of
              Inl e \<Rightarrow> Inl e
            | Inr ks \<Rightarrow>
                map_err (\<lambda>g. make_row top_oid columns (fst g) (map snd (snd g)))
                        (groupby (\<lambda>k. fst (fst k)) (sort_key fst ks))))"

text \<open>The decorated method gets \<open>table_rows\<close> of the walk as its keyword argument.\<close>

definition snmp_table ::
  "nat \<Rightarrow> lib \<Rightarrow> string \<Rightarrow> (string \<times> string) list \<Rightarrow> hub \<Rightarrow> world \<Rightarrow> (snmp_row list) outcome" where
  "snmp_table depth L top_oid columns h w =
     (case snmp_walk depth L top_oid h w of
        (Inl e, h1, w1) \<Rightarrow> (Inl e, h1, w1)
      | (Inr walked, h1, w1) \<Rightarrow>
          (case table_rows top_oid columns walked of
             Inl e \<Rightarrow> (Inl e, h1, w1)
           | Inr rows \<Rightarrow> (Inr rows, h1, w1)))"

text \<open>The entries of a walk that \<open>snmp_table\<close> keeps, and the column name of an entry.\<close>

definition survives :: "string \<Rightarrow> (string \<times> string) list \<Rightarrow> string \<times> json \<Rightarrow> bool" where
  "survives top_oid columns x = (col_num top_oid (fst x) \<in> set (map fst columns))"

section \<open>Notions used to state the properties\<close>

text \<open>
  What a call keeps of the hub whatever happens: the address, the nonce and the flag of
  unapplied settings. The trace only grows.
\<close>

definition stable :: "hub \<Rightarrow> world \<Rightarrow> hub \<Rightarrow> world \<Rightarrow> bool" where
  "stable h w h' w' =
     (hub_url h' = hub_url h \<and> nonce h' = nonce h \<and> nonce_str h' = nonce_str h
      \<and> unapplied_settings h' = unapplied_settings h
      \<and> take (length (trace w)) (trace w') = trace w)"

text \<open>The events that a call added to the trace.\<close>

definition new_events :: "world \<Rightarrow> world \<Rightarrow> event list" where
  "new_events w w' = drop (length (trace w)) (trace w')"

text \<open>Every event is the request \<open>rq\<close> or a sleep: nothing else was asked of the device.\<close>

fun is_request_or_sleep :: "request \<Rightarrow> event \<Rightarrow> bool" where
  "is_request_or_sleep rq (Requested r) = (r = rq)"
| "is_request_or_sleep rq (Slept n) = True"

definition only_requests :: "request \<Rightarrow> event list \<Rightarrow> bool" where
  "only_requests rq evs = list_all (is_request_or_sleep rq) evs"

text \<open>The request that \<open>_get\<close> sends for \<open>url\<close> and \<open>params\<close>.\<close>

definition request_of :: "hub \<Rightarrow> string \<Rightarrow> (string \<times> string) list \<Rightarrow> request" where
  "request_of h u ps = \<lparr>req_url = hub_url h @ ''/'' @ u, req_params = ps, req_cookie = cookie_of h\<rparr>"

text \<open>The sleeps among some events, and the requests sent to the login endpoint.\<close>

fun sleeps :: "event list \<Rightarrow> nat list" where
  "sleeps [] = []"
| "sleeps (Slept n # evs) = n # sleeps evs"
| "sleeps (Requested r # evs) = sleeps evs"

fun is_login_request :: "hub \<Rightarrow> event \<Rightarrow> bool" where
  "is_login_request h (Requested r) = (req_url r = hub_url h @ ''/login'')"
| "is_login_request h (Slept n) = False"

definition login_requests :: "hub \<Rightarrow> event list \<Rightarrow> nat" where
  "login_requests h evs = length (filter (is_login_request h) evs)"

text \<open>A response that a login accepts: no error status, and a body that decodes to a JSON object.\<close>

definition good_login :: "lib \<Rightarrow> response \<Rightarrow> bool" where
  "good_login L r =
     (status_code r \<noteq> 401 \<and> status_code r \<noteq> 500 \<and> raise_for_status r = Inr ()
      \<and> body r \<noteq> []
      \<and> (case b64decode L (body r) of
            None \<Rightarrow> False
          | Some txt \<Rightarrow> (case json_loads L txt of Some (JObj d) \<Rightarrow> True | _ \<Rightarrow> False)))"

text \<open>The hub after a login with user \<open>u\<close> and password \<open>p\<close> that the response \<open>r\<close> answered.\<close>

definition logged_in_by :: "lib \<Rightarrow> string \<Rightarrow> string \<Rightarrow> response \<Rightarrow> hub \<Rightarrow> hub" where
  "logged_in_by L u p r h =
     (case json_loads L (the (b64decode L (body r))) of
        Some (JObj d) \<Rightarrow>
          h\<lparr>credential := Some (body r), username := Some u, password := Some p,
            modelname := json_get d ''modelname'', family := json_get d ''family''\<rparr>
      | _ \<Rightarrow> h)"

section \<open>Example values\<close>

definition example_hub :: hub where
  "example_hub =
     \<lparr>credential = Some ''token'', hub_url = ''http://192.168.0.1'',
      username = Some ''admin'', password = Some ''secret'',
      nonce = [(''_'', ''1541000000000''), (''_n'', ''12345'')],
      nonce_str = ''_n=12345&_=1541000000000'',
      modelname = JNull, family = JNull, unapplied_settings = False\<rparr>"

definition envelope_b64 :: string where
  "envelope_b64 = ''eyJtb2RlbG5hbWUiOiAiSHViIDMuMCIsICJmYW1pbHkiOiAiU3VwZXJodWIifQ==''"

definition envelope_text :: string where
  \<open>envelope_text = ''{"modelname": "Hub 3.0", "family": "Superhub"}''\<close>

definition username_text :: string where
  \<open>username_text = ''{"1.3.6.1.4.1.4115.1.20.1.1.5.16.1.2.1": "admin"}''\<close>

definition set_text :: string where
  \<open>set_text = ''{"1.3.6.1.4.1.4115.1.20.1.1.5.7.0": "1"}''\<close>

definition commit_text :: string where
  \<open>commit_text = ''{"1.3.6.1.4.1.4115.1.20.1.1.9.0": "1"}''\<close>

definition walk_raw :: string where
  \<open>walk_raw = ''{"1.3.6.1.2.1.1.1": "a",\<newline>Error in OID formatting!\<newline>"1": "Finish"}''\<close>

definition walk_clean :: string where
  \<open>walk_clean = ''{"1.3.6.1.2.1.1.1": "a",\<newline>"1": "Finish"}''\<close>

text \<open>The library functions on the texts of the examples.\<close>

definition example_lib :: lib where
  "example_lib =
     \<lparr>json_loads = (\<lambda>s.
        if s = envelope_text then
          Some (JObj [(''modelname'', JStr ''Hub 3.0''), (''family'', JStr ''Superhub'')])
        else if s = username_text then
          Some (JObj [(''1.3.6.1.4.1.4115.1.20.1.1.5.16.1.2.1'', JStr ''admin'')])
        else if s = set_text then
          Some (JObj [(''1.3.6.1.4.1.4115.1.20.1.1.5.7.0'', JStr ''1'')])
        else if s = commit_text then
          Some (JObj [(''1.3.6.1.4.1.4115.1.20.1.1.9.0'', JStr ''1'')])
        else if s = walk_clean then
          Some (JObj [(''1.3.6.1.2.1.1.1'', JStr ''a''), (''1'', JStr ''Finish'')])
        else None),
      b64decode = (\<lambda>s. if s = envelope_b64 then Some envelope_text else None),
      b64encode = (\<lambda>s.
        if s = ''admin:secret'' then ''YWRtaW46c2VjcmV0''
        else if s = ''admin:admin'' then ''YWRtaW46YWRtaW4=''
        else [])\<rparr>"

definition resp :: "int \<Rightarrow> string \<Rightarrow> response" where
  "resp code text = \<lparr>status_code = code, body = text\<rparr>"

definition fresh_world :: "response list \<Rightarrow> world" where
  "fresh_world rs = \<lparr>script = rs, trace = []\<rparr>"

text \<open>The addresses that some events asked for, in order.\<close>

fun requested_urls :: "event list \<Rightarrow> string list" where
  "requested_urls [] = []"
| "requested_urls (Requested r # evs) = req_url r # requested_urls evs"
| "requested_urls (Slept n # evs) = requested_urls evs"

text \<open>
  What a table holds in the row \<open>r\<close> under the column of segment \<open>seg\<close>: the value of the
  entry of the walk with that column segment and that row index, the last one if there
  are several, and \<open>None\<close> if there is none.
\<close>

definition cell_value :: "string \<Rightarrow> (string \<times> json) list \<Rightarrow> int \<Rightarrow> string \<Rightarrow> json" where
  "cell_value top_oid walked r seg =
     (case filter (\<lambda>x. col_num top_oid (fst x) = seg \<and> row_num top_oid (fst x) = Inr r) walked of
        [] \<Rightarrow> JNull
      | e # es \<Rightarrow> snd (last (e # es)))"

section \<open>Properties of the codec\<close>

subsection \<open>MAC addresses\<close>

lemma length_12_cases:
  assumes "length ds = 12"
  obtains a b c d e f g h i j k l where "ds = [a, b, c, d, e, f, g, h, i, j, k, l]"
  using assms by (auto simp: length_Suc_conv numeral_eq_Suc)

text \<open>
  C9, as the code has it. For a wire value of a dollar sign and twelve characters,
  \<open>extract_mac\<close> returns the six groups of two characters joined by colons, every
  character as it stands in the wire value: the result is in lower case exactly when
  the twelve digits are. In particular \<open>$787b8a6413f5\<close> gives \<open>78:7b:8a:64:13:f5\<close>.
\<close>

theorem extract_mac_groups:
  assumes "length ds = 12"
  shows "extract_mac (CHR ''$'' # ds) =
           py_join '':'' [py_slice 0 2 ds, py_slice 2 4 ds, py_slice 4 6 ds,
                          py_slice 6 8 ds, py_slice 8 10 ds, py_slice 10 12 ds]
         \<and> is_lower_str (extract_mac (CHR ''$'' # ds)) = is_lower_str ds
         \<and> extract_mac ''$787b8a6413f5'' = ''78:7b:8a:64:13:f5''"
proof -
  from assms obtain a b c d e f g h i j k l
    where ds: "ds = [a, b, c, d, e, f, g, h, i, j, k, l]"
    by (rule length_12_cases)
  have groups: "extract_mac (CHR ''$'' # ds) =
           py_join '':'' [py_slice 0 2 ds, py_slice 2 4 ds, py_slice 4 6 ds,
                          py_slice 6 8 ds, py_slice 8 10 ds, py_slice 10 12 ds]"
    by (simp add: ds extract_mac_def py_slice_def)
  have lower: "is_lower_str (extract_mac (CHR ''$'' # ds)) = is_lower_str ds"
    unfolding groups is_lower_str_def
    by (auto simp: ds py_slice_def py_lower_def)
  have example: "extract_mac ''$787b8a6413f5'' = ''78:7b:8a:64:13:f5''"
    by (simp add: extract_mac_def py_slice_def)
  from groups lower example show ?thesis by blast
qed

theorem extract_mac_groups_witness:
  "length ''787b8a6413f5'' = 12
   \<and> extract_mac ''$787b8a6413f5'' = ''78:7b:8a:64:13:f5''
   \<and> is_lower_str (extract_mac ''$787b8a6413f5'')"
  using extract_mac_groups [of "''787b8a6413f5''"]
  by (simp add: is_lower_str_def py_lower_def py_slice_def)

text \<open>
  C9 as stated fails on upper-case hex digits: the groups come back in upper case.
\<close>

theorem extract_mac_upper_counterexample:
  "list_all is_hex_digit ''787B8A6413F5''
   \<and> extract_mac ''$787B8A6413F5'' = ''78:7B:8A:64:13:F5''
   \<and> \<not> is_lower_str (extract_mac ''$787B8A6413F5'')"
  by (simp add: extract_mac_def py_slice_def is_lower_str_def py_lower_def
                is_hex_digit_def is_digit_def digit_value_def char_of_eq_iff)

subsection \<open>Parsing digit strings with int()\<close>

lemma is_digit_not_special:
  assumes "is_digit b c"
  shows "\<not> py_isspace c" and "c \<noteq> CHR ''-''" and "c \<noteq> CHR ''+''" and "c \<noteq> CHR ''_''"
  using assms
  by (auto simp: is_digit_def digit_value_def py_isspace_def Let_def split: if_splits)

lemma is_digit_x:
  assumes "b \<le> 16"
  shows "\<not> is_digit b (CHR ''x'')" and "\<not> is_digit b (CHR ''X'')"
  using assms by (simp_all add: is_digit_def digit_value_def)

lemma no_double_underscore_digits:
  "CHR ''_'' \<notin> set s \<Longrightarrow> no_double_underscore s"
  by (induction s rule: no_double_underscore.induct) auto

lemma take2_not_prefix:
  assumes "list_all (is_digit b) s" and "b \<le> 16"
  shows "take 2 s \<noteq> ''0x''" and "take 2 s \<noteq> ''0X''"
proof -
  have "\<not> (\<exists>c t. s = c # CHR ''x'' # t)" "\<not> (\<exists>c t. s = c # CHR ''X'' # t)"
    using assms is_digit_x [of b] by auto
  then show "take 2 s \<noteq> ''0x''" "take 2 s \<noteq> ''0X''"
    by (cases s; cases "tl s"; auto)+
qed

text \<open>On a non-empty string of digits, \<open>int\<close> is the value of the digits.\<close>

lemma py_int_digits:
  assumes ne: "s \<noteq> []" and digs: "list_all (is_digit b) s" and b: "b \<le> 16"
  shows "py_int b s = Inr (int (digits_value b s))"
proof -
  from ne obtain c t where s: "s = c # t" by (cases s) auto
  with digs have c: "is_digit b c" by simp
  have all: "\<forall>x\<in>set s. is_digit b x" using digs by (simp add: list_all_iff)
  have s1: "dropWhile py_isspace s = s"
    using is_digit_not_special(1) [OF c] by (simp add: s)
  have sign: "hd s \<noteq> CHR ''+''" "hd s \<noteq> CHR ''-''"
    using is_digit_not_special [OF c] by (simp_all add: s)
  have pre: "take 2 s \<noteq> ''0x''" "take 2 s \<noteq> ''0X''"
    using take2_not_prefix [OF digs b] by simp_all
  have body: "takeWhile (\<lambda>c. is_digit b c \<or> c = CHR ''_'') s = s"
    using all by (simp add: takeWhile_eq_all_conv)
  have rest: "dropWhile (\<lambda>c. is_digit b c \<or> c = CHR ''_'') s = []"
    using all by simp
  have nound: "CHR ''_'' \<notin> set s"
    using all is_digit_not_special(4) by blast
  have hdl: "hd s \<noteq> CHR ''_''" "last s \<noteq> CHR ''_''"
    using nound ne by (metis hd_in_set, metis last_in_set)
  have filt: "filter (\<lambda>c. c \<noteq> CHR ''_'') s = s"
    using nound by (simp add: filter_id_conv) metis
  show ?thesis
    unfolding py_int_def Let_def s1
    using sign pre ne hdl no_double_underscore_digits [OF nound]
    by (simp add: body rest filt)
qed

lemma list_all_py_slice: "list_all P s \<Longrightarrow> list_all P (py_slice a b s)"
  by (auto simp: py_slice_def list_all_iff dest: in_set_takeD in_set_dropD)

lemma py_slice_Cons: "0 < a \<Longrightarrow> py_slice a b (c # s) = py_slice (a - 1) (b - 1) s"
  by (cases a) (simp_all add: py_slice_def)

lemma py_slice_nonempty: "a < b \<Longrightarrow> a < length s \<Longrightarrow> py_slice a b s \<noteq> []"
  by (simp add: py_slice_def)

subsection \<open>Timestamps\<close>

lemma py_int_hex_slice:
  assumes "list_all is_hex_digit ds" and "a < b" and "a < length ds"
  shows "py_int 16 (py_slice a b ds) = Inr (int (digits_value 16 (py_slice a b ds)))"
proof (rule py_int_digits)
  show "py_slice a b ds \<noteq> []" using assms by (simp add: py_slice_nonempty)
  show "list_all (is_digit 16) (py_slice a b ds)"
    using assms(1) list_all_py_slice [of "is_digit 16" ds a b]
    by (simp add: is_hex_digit_def [abs_def])
qed simp

lemma extract_date_valid:
  "extract_date v = Inr (Some dt) \<Longrightarrow> valid_datetime dt"
  by (auto simp: extract_date_def py_datetime_def Let_def
           split: option.splits sum.splits if_splits)

lemma extract_date_hex:
  assumes len: "length ds = 16" and hex: "list_all is_hex_digit ds"
    and nz: "ds \<noteq> ''0000000000000000''"
  shows "extract_date (Some (CHR ''$'' # ds)) =
           (case py_datetime (int (digits_value 16 (py_slice 0 4 ds)))
                             (int (digits_value 16 (py_slice 4 6 ds)))
                             (int (digits_value 16 (py_slice 6 8 ds)))
                             (int (digits_value 16 (py_slice 8 10 ds)))
                             (int (digits_value 16 (py_slice 10 12 ds)))
                             (int (digits_value 16 (py_slice 12 14 ds))) of
              Inl e \<Rightarrow> Inl e
            | Inr dt \<Rightarrow> Inr (Some dt))"
proof -
  have sl: "\<And>a b. a < b \<Longrightarrow> a < 16 \<Longrightarrow>
              py_int 16 (py_slice a b ds) = Inr (int (digits_value 16 (py_slice a b ds)))"
    using py_int_hex_slice [OF hex] len by simp
  show ?thesis
    unfolding extract_date_def
    using nz by (simp add: py_slice_Cons sl)
qed

text \<open>
  C8. \<open>extract_date\<close> maps \<open>$07e2030e10071100\<close> to 2018-03-14 16:07:17. It returns \<open>None\<close>
  for \<open>None\<close>, for the empty string and for the all-zero pattern. On a dollar sign and
  sixteen hex digits it reads the year from the first four digits and month, day, hour,
  minute and second from the next five pairs, leaves the last pair unread, and hands the
  six numbers to \<open>datetime\<close>: when they name no moment of the calendar the result is a
  \<open>ValueError\<close>. Whatever the input, a datetime that comes back is a valid one.
\<close>

theorem extract_date_spec:
  "extract_date (Some ''$07e2030e10071100'') =
     Inr (Some \<lparr>year = 2018, month = 3, day = 14, hour = 16, minute = 7, second = 17\<rparr>)
   \<and> extract_date None = Inr None
   \<and> extract_date (Some []) = Inr None
   \<and> extract_date (Some ''$0000000000000000'') = Inr None
   \<and> (length ds = 16 \<and> list_all is_hex_digit ds \<and> ds \<noteq> ''0000000000000000'' \<longrightarrow>
        (let dt = \<lparr>year = int (digits_value 16 (py_slice 0 4 ds)),
                   month = int (digits_value 16 (py_slice 4 6 ds)),
                   day = int (digits_value 16 (py_slice 6 8 ds)),
                   hour = int (digits_value 16 (py_slice 8 10 ds)),
                   minute = int (digits_value 16 (py_slice 10 12 ds)),
                   second = int (digits_value 16 (py_slice 12 14 ds))\<rparr>
         in extract_date (Some (CHR ''$'' # ds)) =
              (if valid_datetime dt then Inr (Some dt) else Inl ValueError)))
   \<and> (extract_date v = Inr (Some t) \<longrightarrow> valid_datetime t)"
proof -
  have ex: "extract_date (Some ''$07e2030e10071100'') =
     Inr (Some \<lparr>year = 2018, month = 3, day = 14, hour = 16, minute = 7, second = 17\<rparr>)"
    by (simp add: extract_date_hex is_hex_digit_def is_digit_def digit_value_def
                  digits_value_def py_slice_def py_datetime_def valid_datetime_def
                  days_in_month_def)
  have absent: "extract_date None = Inr None" "extract_date (Some []) = Inr None"
    "extract_date (Some ''$0000000000000000'') = Inr None"
    by (simp_all add: extract_date_def)
  have fmt: "length ds = 16 \<and> list_all is_hex_digit ds \<and> ds \<noteq> ''0000000000000000'' \<longrightarrow>
        (let dt = \<lparr>year = int (digits_value 16 (py_slice 0 4 ds)),
                   month = int (digits_value 16 (py_slice 4 6 ds)),
                   day = int (digits_value 16 (py_slice 6 8 ds)),
                   hour = int (digits_value 16 (py_slice 8 10 ds)),
                   minute = int (digits_value 16 (py_slice 10 12 ds)),
                   second = int (digits_value 16 (py_slice 12 14 ds))\<rparr>
         in extract_date (Some (CHR ''$'' # ds)) =
              (if valid_datetime dt then Inr (Some dt) else Inl ValueError))"
    by (simp add: extract_date_hex py_datetime_def Let_def)
  have valid: "extract_date v = Inr (Some t) \<longrightarrow> valid_datetime t"
    using extract_date_valid by blast
  from ex absent fmt valid show ?thesis by blast
qed

theorem extract_date_spec_witness:
  "length ''07e2021e10071100'' = 16
   \<and> list_all is_hex_digit ''07e2021e10071100''
   \<and> extract_date (Some ''$07e2021e10071100'') = Inl ValueError
   \<and> extract_date (Some ''$07e2030e10071100'') =
       Inr (Some \<lparr>year = 2018, month = 3, day = 14, hour = 16, minute = 7, second = 17\<rparr>)
   \<and> valid_datetime \<lparr>year = 2018, month = 3, day = 14, hour = 16, minute = 7, second = 17\<rparr>"
  using extract_date_spec [of "''07e2021e10071100''" "Some ''$07e2030e10071100''"
          "\<lparr>year = 2018, month = 3, day = 14, hour = 16, minute = 7, second = 17\<rparr>"]
  by (simp add: is_hex_digit_def is_digit_def digit_value_def digits_value_def py_slice_def
                valid_datetime_def days_in_month_def is_leap_def)

section \<open>Properties of the request layer\<close>

lemma take_prefix_iff: "take (length a) b = a \<longleftrightarrow> (\<exists>evs. b = a @ evs)"
  by (metis append_eq_conv_conj append_take_drop_id)

lemma stable_refl: "stable h w h w"
  by (simp add: stable_def)

lemma stable_trans: "stable h w h1 w1 \<Longrightarrow> stable h1 w1 h2 w2 \<Longrightarrow> stable h w h2 w2"
  unfolding stable_def take_prefix_iff by auto

lemma stable_trace: "trace w1 = trace w @ evs \<Longrightarrow> stable h w h w1"
  by (simp add: stable_def)

lemma requests_get_Cons:
  "script w = r # rs \<Longrightarrow>
     requests_get rq w = (Inr r, w\<lparr>script := rs, trace := trace w @ [Requested rq]\<rparr>)"
  by (simp add: requests_get_def)

lemma requests_get_trace:
  "requests_get rq w = (r, w1) \<Longrightarrow> trace w1 = trace w @ [Requested rq]"
  by (auto simp: requests_get_def split: list.splits)

text \<open>With a 401 budget of at most 1, \<open>_get\<close> never logs in: the hub stays as it is and
  the only request sent is the one asked for.\<close>

lemma get_loop_no_relogin:
  "retry401 \<le> 1 \<Longrightarrow> get_loop relogin u ps retry401 retry500 sleep h w = (res, h', w') \<Longrightarrow>
     h' = h \<and> (\<exists>evs. trace w' = trace w @ evs \<and> only_requests (request_of h u ps) evs)"
proof (induction relogin u ps retry401 retry500 sleep h w rule: get_loop.induct)
  case (1 relogin u ps retry401 retry500 sleep h w)
  obtain x w1 where rg: "requests_get (request_of h u ps) w = (x, w1)"
    by (cases "requests_get (request_of h u ps) w") auto
  then have tr: "trace w1 = trace w @ [Requested (request_of h u ps)]"
    by (rule requests_get_trace)
  show ?case
  proof (cases x)
    case (Inl e)
    with rg "1.prems" tr show ?thesis
      by (subst (asm) get_loop.simps) (auto simp: request_of_def only_requests_def)
  next
    case (Inr rsp)
    show ?thesis
    proof (cases "status_code rsp = 500 \<and> 0 < retry500 - 1")
      case True
      with rg Inr "1.prems" have rec: "get_loop relogin u ps retry401 (retry500 - 1) (sleep * 2) h
              (w1\<lparr>trace := trace w1 @ [Slept sleep]\<rparr>) = (res, h', w')"
        by (subst (asm) (1) get_loop.simps) (auto simp: request_of_def)
      have "h' = h \<and> (\<exists>evs. trace w' = trace (w1\<lparr>trace := trace w1 @ [Slept sleep]\<rparr>) @ evs
              \<and> only_requests (request_of h u ps) evs)"
        using "1.IH"(2) [OF rg [unfolded request_of_def, symmetric] Inr _ True "1.prems"(1) rec] True
        by auto
      then show ?thesis using tr by (auto simp: only_requests_def)
    next
      case False
      with rg Inr "1.prems" tr show ?thesis
        by (subst (asm) get_loop.simps) (auto simp: request_of_def only_requests_def)
    qed
  qed
qed

text \<open>Whatever the budgets, \<open>_get\<close> keeps what \<open>stable\<close> names, if the login does.\<close>

lemma get_loop_stable:
  "(\<And>h w r h' w'. relogin h w = (r, h', w') \<Longrightarrow> stable h w h' w') \<Longrightarrow>
   get_loop relogin u ps retry401 retry500 sleep h w = (res, h', w') \<Longrightarrow> stable h w h' w'"
proof (induction relogin u ps retry401 retry500 sleep h w rule: get_loop.induct)
  case (1 relogin u ps retry401 retry500 sleep h w)
  obtain x w1 where rg: "requests_get (request_of h u ps) w = (x, w1)"
    by (cases "requests_get (request_of h u ps) w") auto
  then have tr: "trace w1 = trace w @ [Requested (request_of h u ps)]"
    by (rule requests_get_trace)
  have st1: "stable h w h w1" using tr by (rule stable_trace)
  show ?case
  proof (cases x)
    case (Inl e)
    with rg "1.prems" st1 show ?thesis
      by (subst (asm) get_loop.simps) (auto simp: request_of_def)
  next
    case (Inr rsp)
    consider (relog) "status_code rsp = 401 \<and> 0 < retry401 - 1 \<and> is_loggedin h"
      | (retry) "\<not> (status_code rsp = 401 \<and> 0 < retry401 - 1 \<and> is_loggedin h)"
                "status_code rsp = 500 \<and> 0 < retry500 - 1"
      | (fin) "\<not> (status_code rsp = 401 \<and> 0 < retry401 - 1 \<and> is_loggedin h)"
               "\<not> (status_code rsp = 500 \<and> 0 < retry500 - 1)"
      by blast
    then show ?thesis
    proof cases
      case relog
      obtain r2 h2 w2 where rl: "relogin h w1 = (r2, h2, w2)"
        by (cases "relogin h w1") auto
      have st2: "stable h w1 h2 w2" using "1.prems"(1) [OF rl] .
      show ?thesis
      proof (cases r2)
        case (Inl e)
        with rg Inr relog rl "1.prems"(2) have "h' = h2" "w' = w2"
          by (subst (asm) get_loop.simps; simp add: request_of_def)+
        with st1 st2 show ?thesis by (blast intro: stable_trans)
      next
        case (Inr v)
        with rg \<open>x = Inr rsp\<close> relog rl "1.prems"(2)
        have rec: "get_loop relogin u ps (retry401 - 1) retry500 sleep h2 w2 = (res, h', w')"
          by (subst (asm) (1) get_loop.simps) (simp add: request_of_def)
        have "stable h2 w2 h' w'"
          using "1.IH"(1) [OF rg [unfolded request_of_def, symmetric] \<open>x = Inr rsp\<close> relog
                  rl [symmetric] Inr refl "1.prems"(1) rec] .
        with st1 st2 show ?thesis by (blast intro: stable_trans)
      qed
    next
      case retry
      with rg Inr "1.prems"(2)
      have rec: "get_loop relogin u ps retry401 (retry500 - 1) (sleep * 2) h
              (w1\<lparr>trace := trace w1 @ [Slept sleep]\<rparr>) = (res, h', w')"
        by (subst (asm) (1) get_loop.simps) (auto simp: request_of_def)
      have "stable h (w1\<lparr>trace := trace w1 @ [Slept sleep]\<rparr>) h' w'"
        using "1.IH"(2) [OF rg [unfolded request_of_def, symmetric] Inr retry "1.prems"(1) rec] .
      moreover have "stable h w1 h (w1\<lparr>trace := trace w1 @ [Slept sleep]\<rparr>)"
        by (simp add: stable_def)
      ultimately show ?thesis using st1 by (blast intro: stable_trans)
    next
      case fin
      with fin rg Inr "1.prems"(2) st1 show ?thesis
        by (subst (asm) get_loop.simps) (auto simp: request_of_def)
    qed
  qed
qed

lemma get_finish_cases:
  assumes "get_finish r = (res, h', w')"
  obtains res0 where "r = (res0, h', w')"
  using assms by (auto simp: get_finish_def split: prod.splits sum.splits if_splits)

lemma get_finish_Inr:
  "get_finish r = (Inr rsp, h', w') \<Longrightarrow>
     r = (Inr rsp, h', w') \<and> raise_for_status rsp = Inr () \<and> status_code rsp \<noteq> 401"
  by (auto simp: get_finish_def split: prod.splits sum.splits if_splits)

lemma login_with_stable:
  assumes get: "\<And>u ps r4 r5 h w r h' w'. get u ps r4 r5 h w = (r, h', w') \<Longrightarrow> stable h w h' w'"
    and lg: "login_with get L uname pw h w = (res, h', w')"
  shows "stable h w h' w'"
proof -
  obtain r1 h1 w1 where res: "resolve_username_with get L uname h w = (r1, h1, w1)"
    by (cases "resolve_username_with get L uname h w") auto
  have st1: "stable h w h1 w1"
    using res get
    by (auto simp: resolve_username_with_def auth_username_with_def snmp_get_with_def
                   snmp_gets_with_def stable_refl
             split: option.splits if_splits prod.splits sum.splits json.splits)
  show ?thesis
  proof (cases "\<exists>u p. r1 = Inr (JStr u) \<and> pw = Some p \<and> is_ascii (u @ '':'' @ p)")
    case False
    with lg res have "h' = h1" "w' = w1"
      by (auto simp: login_with_def split: sum.splits json.splits option.splits if_splits)
    with st1 show ?thesis by simp
  next
    case True
    then obtain u p where up: "r1 = Inr (JStr u)" "pw = Some p" "is_ascii (u @ '':'' @ p)"
      by blast
    obtain r2 h2 w2 where g: "get ''login'' (params h1 [(''arg'', b64encode L (u @ '':'' @ p))]) 0 retry500_default h1 w1
               = (r2, h2, w2)"
      by (cases "get ''login'' (params h1 [(''arg'', b64encode L (u @ '':'' @ p))]) 0 retry500_default h1 w1") auto
    have st2: "stable h1 w1 h2 w2" using get [OF g] .
    have "stable h2 w2 h' w'"
      using lg res up g
      by (auto simp: login_with_def stable_def
               split: sum.splits json.splits option.splits if_splits)
    with st1 st2 show ?thesis by (blast intro: stable_trans)
  qed
qed

lemma get_at_stable:
  "get_at d L u ps r4 r5 h w = (res, h', w') \<Longrightarrow> stable h w h' w'"
proof (induction d arbitrary: u ps r4 r5 h w res h' w')
  case 0
  then show ?case by (simp add: stable_refl)
next
  case (Suc d)
  from Suc.prems obtain res0 where
    loop: "get_loop (\<lambda>h' w'. login_with (get_at d L) L (username h') (password h') h' w')
             u ps r4 r5 1 h w = (res0, h', w')"
    by (auto elim: get_finish_cases)
  show ?case
  proof (rule get_loop_stable [OF _ loop])
    fix h w r h' w'
    assume "login_with (get_at d L) L (username h) (password h) h w = (r, h', w')"
    then show "stable h w h' w'"
      using Suc.IH by (rule login_with_stable [rotated])
  qed
qed

lemma get_at_no_relogin:
  assumes "r4 \<le> 1" and "get_at d L u ps r4 r5 h w = (res, h', w')"
  shows "h' = h \<and> (\<exists>evs. trace w' = trace w @ evs \<and> only_requests (request_of h u ps) evs)"
proof (cases d)
  case 0
  with assms show ?thesis by (simp add: only_requests_def)
next
  case (Suc n)
  with assms(2) obtain res0 where
    "get_loop (\<lambda>h' w'. login_with (get_at n L) L (username h') (password h') h' w')
             u ps r4 r5 1 h w = (res0, h', w')"
    by (auto elim: get_finish_cases)
  with assms(1) show ?thesis by (rule get_loop_no_relogin)
qed

lemma get_at_Inr:
  "get_at d L u ps r4 r5 h w = (Inr rsp, h', w') \<Longrightarrow> raise_for_status rsp = Inr ()"
  by (cases d) (auto dest: get_finish_Inr)

subsection \<open>Single steps of the loop\<close>

lemma get_loop_retry500:
  assumes "script w = r # rs" and "status_code r = 500" and "1 < retry500"
  shows "get_loop relogin u ps retry401 retry500 sleep h w =
           get_loop relogin u ps retry401 (retry500 - 1) (sleep * 2) h
             (w\<lparr>script := rs,
                trace := trace w @ [Requested (request_of h u ps), Slept sleep]\<rparr>)"
  using assms
  by (subst get_loop.simps) (simp add: requests_get_def request_of_def)

lemma get_loop_done:
  assumes "script w = r # rs"
    and "status_code r \<noteq> 401 \<or> retry401 \<le> 1 \<or> \<not> is_loggedin h"
    and "status_code r \<noteq> 500 \<or> retry500 \<le> 1"
  shows "get_loop relogin u ps retry401 retry500 sleep h w =
           (Inr r, h, w\<lparr>script := rs, trace := trace w @ [Requested (request_of h u ps)]\<rparr>)"
  using assms
  by (subst get_loop.simps) (auto simp: requests_get_def request_of_def)

lemma get_loop_relogin:
  assumes "script w = r # rs" and "status_code r = 401" and "1 < retry401" and "is_loggedin h"
  shows "get_loop relogin u ps retry401 retry500 sleep h w =
           (case relogin h (w\<lparr>script := rs,
                               trace := trace w @ [Requested (request_of h u ps)]\<rparr>) of
              (Inl e, h2, w2) \<Rightarrow> (Inl e, h2, w2)
            | (Inr _, h2, w2) \<Rightarrow> get_loop relogin u ps (retry401 - 1) retry500 sleep h2 w2)"
  using assms
  by (subst get_loop.simps) (simp add: requests_get_def request_of_def)

subsection \<open>Backing off after HTTP 500\<close>

text \<open>
  C2. When the device answers 500, 500 and then 200, \<open>_get\<close> with the default 500 budget
  of 3 returns the third response after exactly two sleeps, of 1 and then 2 seconds,
  each before the next try. When the third answer is a 500 as well, the budget is used
  up and the \<open>HTTPError\<close> of \<open>raise_for_status\<close> for status 500 is raised, after the
  same two sleeps.
\<close>

theorem get_backoff_500:
  assumes "0 < depth" and "script w = r1 # r2 # r3 # rest"
    and "status_code r1 = 500" and "status_code r2 = 500"
  shows "(status_code r3 = 200 \<longrightarrow>
            hub_get depth L u ps retry401 retry500_default h w =
              (Inr r3, h,
               w\<lparr>script := rest,
                 trace := trace w @ [Requested (request_of h u ps), Slept 1,
                                     Requested (request_of h u ps), Slept 2,
                                     Requested (request_of h u ps)]\<rparr>))
       \<and> (status_code r3 = 500 \<longrightarrow>
            hub_get depth L u ps retry401 retry500_default h w =
              (Inl (HTTPError 500), h,
               w\<lparr>script := rest,
                 trace := trace w @ [Requested (request_of h u ps), Slept 1,
                                     Requested (request_of h u ps), Slept 2,
                                     Requested (request_of h u ps)]\<rparr>))"
proof -
  from assms(1) obtain n where d: "depth = Suc n" by (cases depth) auto
  let ?relogin = "\<lambda>h' w'. login_with (get_at n L) L (username h') (password h') h' w'"
  let ?rq = "Requested (request_of h u ps)"
  let ?w1 = "w\<lparr>script := r2 # r3 # rest, trace := trace w @ [?rq, Slept 1]\<rparr>"
  let ?w2 = "w\<lparr>script := r3 # rest, trace := trace w @ [?rq, Slept 1, ?rq, Slept 2]\<rparr>"
  let ?w3 = "w\<lparr>script := rest, trace := trace w @ [?rq, Slept 1, ?rq, Slept 2, ?rq]\<rparr>"
  have s1: "get_loop ?relogin u ps retry401 3 1 h w = get_loop ?relogin u ps retry401 2 2 h ?w1"
    using get_loop_retry500 [of w r1 "r2 # r3 # rest" 3 ?relogin u ps retry401 1 h] assms
    by simp
  have s2: "get_loop ?relogin u ps retry401 2 2 h ?w1 = get_loop ?relogin u ps retry401 1 4 h ?w2"
    using get_loop_retry500 [of ?w1 r2 "r3 # rest" 2 ?relogin u ps retry401 2 h] assms
    by simp
  have s3: "status_code r3 \<noteq> 401 \<Longrightarrow>
              get_loop ?relogin u ps retry401 1 4 h ?w2 = (Inr r3, h, ?w3)"
    using get_loop_done [of ?w2 r3 rest retry401 h 1 ?relogin u ps 4]
    by simp
  have loop: "status_code r3 \<noteq> 401 \<Longrightarrow>
                get_loop ?relogin u ps retry401 3 1 h w = (Inr r3, h, ?w3)"
    using s1 s2 s3 by simp
  show ?thesis
    using loop
    by (auto simp: d hub_get_def retry500_default_def get_finish_def raise_for_status_def)
qed

theorem get_backoff_500_witness:
  "hub_get 1 example_lib ''snmpGet?oids=1.3.6.1.2.1.1.1;'' [] retry401_default retry500_default
     example_hub (fresh_world [resp 500 [], resp 500 [], resp 200 set_text, resp 200 []])
   = (Inr (resp 200 set_text), example_hub,
      \<lparr>script = [resp 200 []],
       trace = [Requested (request_of example_hub ''snmpGet?oids=1.3.6.1.2.1.1.1;'' []), Slept 1,
                Requested (request_of example_hub ''snmpGet?oids=1.3.6.1.2.1.1.1;'' []), Slept 2,
                Requested (request_of example_hub ''snmpGet?oids=1.3.6.1.2.1.1.1;'' [])]\<rparr>)
   \<and> fst (hub_get 1 example_lib ''snmpGet?oids=1.3.6.1.2.1.1.1;'' [] retry401_default
            retry500_default example_hub
            (fresh_world [resp 500 [], resp 500 [], resp 500 [], resp 200 set_text]))
     = Inl (HTTPError 500)"
  using get_backoff_500 [of 1 "fresh_world [resp 500 [], resp 500 [], resp 200 set_text, resp 200 []]"
          "resp 500 []" "resp 500 []" "resp 200 set_text" "[resp 200 []]" example_lib
          "''snmpGet?oids=1.3.6.1.2.1.1.1;''" "[]" retry401_default example_hub]
        get_backoff_500 [of 1 "fresh_world [resp 500 [], resp 500 [], resp 500 [], resp 200 set_text]"
          "resp 500 []" "resp 500 []" "resp 500 []" "[resp 200 set_text]" example_lib
          "''snmpGet?oids=1.3.6.1.2.1.1.1;''" "[]" retry401_default example_hub]
  by (simp add: fresh_world_def resp_def)

subsection \<open>Logging in again after HTTP 401\<close>

lemma good_login_decoded:
  assumes "good_login L r"
  obtains tx d where "b64decode L (body r) = Some tx" and "json_loads L tx = Some (JObj d)"
  using assms
  by (auto simp: good_login_def split: option.splits json.splits)

lemma logged_in_by_fields:
  assumes "good_login L r"
  shows "credential (logged_in_by L u p r h) = Some (body r)"
    and "username (logged_in_by L u p r h) = Some u"
    and "password (logged_in_by L u p r h) = Some p"
    and "hub_url (logged_in_by L u p r h) = hub_url h"
    and "nonce (logged_in_by L u p r h) = nonce h"
    and "nonce_str (logged_in_by L u p r h) = nonce_str h"
    and "unapplied_settings (logged_in_by L u p r h) = unapplied_settings h"
    and "is_loggedin (logged_in_by L u p r h)"
proof -
  from assms obtain tx d where "b64decode L (body r) = Some tx" "json_loads L tx = Some (JObj d)"
    by (rule good_login_decoded)
  then have eq: "logged_in_by L u p r h =
      h\<lparr>credential := Some (body r), username := Some u, password := Some p,
        modelname := json_get d ''modelname'', family := json_get d ''family''\<rparr>"
    by (simp add: logged_in_by_def)
  show "credential (logged_in_by L u p r h) = Some (body r)"
    and "username (logged_in_by L u p r h) = Some u"
    and "password (logged_in_by L u p r h) = Some p"
    and "hub_url (logged_in_by L u p r h) = hub_url h"
    and "nonce (logged_in_by L u p r h) = nonce h"
    and "nonce_str (logged_in_by L u p r h) = nonce_str h"
    and "unapplied_settings (logged_in_by L u p r h) = unapplied_settings h"
    and "is_loggedin (logged_in_by L u p r h)"
    by (simp_all add: eq is_loggedin_def)
qed

text \<open>The request that a login for \<open>u\<close> and \<open>p\<close> sends.\<close>

lemma get_at_single:
  assumes "script w = r # rs" and "raise_for_status r = Inr ()"
    and "status_code r \<noteq> 401" and "status_code r \<noteq> 500"
  shows "get_at (Suc n) L u ps r4 r5 h w =
           (Inr r, h, w\<lparr>script := rs, trace := trace w @ [Requested (request_of h u ps)]\<rparr>)"
  using assms by (simp add: get_loop_done get_finish_def)

lemma login_with_good:
  assumes "u \<noteq> []" and "is_ascii (u @ '':'' @ p)"
    and "script w = r # rs" and "good_login L r"
  shows "login_with (get_at (Suc n) L) L (Some u) (Some p) h w =
           (Inr (), logged_in_by L u p r h,
            w\<lparr>script := rs,
              trace := trace w @ [Requested (request_of h ''login''
                                    (params h [(''arg'', b64encode L (u @ '':'' @ p))]))]\<rparr>)"
proof -
  from assms(4) obtain tx d where dec: "b64decode L (body r) = Some tx"
      "json_loads L tx = Some (JObj d)"
    by (rule good_login_decoded)
  have st: "raise_for_status r = Inr ()" "status_code r \<noteq> 401" "status_code r \<noteq> 500"
      "body r \<noteq> []"
    using assms(4) by (simp_all add: good_login_def)
  have g: "get_at (Suc n) L ''login'' (params h [(''arg'', b64encode L (u @ '':'' @ p))]) 0 retry500_default h w =
      (Inr r, h, w\<lparr>script := rs,
              trace := trace w @ [Requested (request_of h ''login''
                                    (params h [(''arg'', b64encode L (u @ '':'' @ p))]))]\<rparr>)"
    using assms(3) st(1-3) by (rule get_at_single)
  show ?thesis
    unfolding login_with_def resolve_username_with_def
    using assms(1,2) st(4) dec g
    by (simp add: logged_in_by_def del: get_at.simps)
qed

text \<open>One round of the loop: a 401, then a login that succeeds.\<close>

lemma get_loop_relogin_round:
  assumes h: "is_loggedin h" "username h = Some usr" "usr \<noteq> []" "password h = Some pw"
      "is_ascii (usr @ '':'' @ pw)"
    and w: "script w = a # l # rs" "status_code a = 401" "good_login L l"
    and budget: "1 < retry401"
  shows "get_loop (\<lambda>h' w'. login_with (get_at (Suc n) L) L (username h') (password h') h' w')
            u ps retry401 retry500 sleep h w =
         get_loop (\<lambda>h' w'. login_with (get_at (Suc n) L) L (username h') (password h') h' w')
            u ps (retry401 - 1) retry500 sleep (logged_in_by L usr pw l h)
            (w\<lparr>script := rs,
               trace := trace w @
                 [Requested (request_of h u ps),
                  Requested (request_of h ''login''
                               (params h [(''arg'', b64encode L (usr @ '':'' @ pw))]))]\<rparr>)"
proof -
  let ?w1 = "w\<lparr>script := l # rs, trace := trace w @ [Requested (request_of h u ps)]\<rparr>"
  have lg: "login_with (get_at (Suc n) L) L (username h) (password h) h ?w1 =
      (Inr (), logged_in_by L usr pw l h,
       ?w1\<lparr>script := rs,
          trace := trace ?w1 @ [Requested (request_of h ''login''
                                  (params h [(''arg'', b64encode L (usr @ '':'' @ pw))]))]\<rparr>)"
    unfolding h(2) h(4)
    by (rule login_with_good) (use h w in simp_all)
  show ?thesis
    using get_loop_relogin [OF w(1) w(2) budget h(1), where u = u and ps = ps
             and relogin = "\<lambda>h' w'. login_with (get_at (Suc n) L) L (username h') (password h') h' w'"
             and ?retry500.0 = retry500 and sleep = sleep]
    by (simp only: lg) simp
qed

text \<open>
  C1, as the code has it. A hub that holds a credential asks with the default 401 budget
  of 5, the device answers every try with 401 and every login with an envelope that
  decodes. Then \<open>_get\<close> logs in again exactly four times, once after each of the first
  four 401 answers, with the user name and password it holds, and fails on the fifth
  401 answer without a further login: nine responses are used up, and the credential
  is the body of the fourth login response.
\<close>

theorem get_relogin_401:
  assumes depth: "2 \<le> depth"
    and hub: "is_loggedin h" "username h = Some usr" "usr \<noteq> []" "password h = Some pw"
      "is_ascii (usr @ '':'' @ pw)"
    and script: "script w = a1 # l1 # a2 # l2 # a3 # l3 # a4 # l4 # a5 # rest"
    and denied: "list_all (\<lambda>a. status_code a = 401) [a1, a2, a3, a4, a5]"
    and logins: "list_all (good_login L) [l1, l2, l3, l4]"
    and other: "u \<noteq> ''login''"
  shows "\<exists>e h' w'.
           hub_get depth L u ps retry401_default retry500 h w = (Inl e, h', w')
           \<and> script w' = rest
           \<and> requested_urls (new_events w w') =
               [hub_url h @ ''/'' @ u, hub_url h @ ''/login'',
                hub_url h @ ''/'' @ u, hub_url h @ ''/login'',
                hub_url h @ ''/'' @ u, hub_url h @ ''/login'',
                hub_url h @ ''/'' @ u, hub_url h @ ''/login'',
                hub_url h @ ''/'' @ u]
           \<and> sleeps (new_events w w') = []
           \<and> login_requests h (new_events w w') = 4
           \<and> credential h' = Some (body l4)"
proof -
  from depth obtain n where d: "depth = Suc (Suc n)"
    by (metis Suc_le_D numeral_2_eq_2 Suc_le_mono)
  let ?re = "\<lambda>h' w'. login_with (get_at (Suc n) L) L (username h') (password h') h' w'"
  let ?arg = "[(''arg'', b64encode L (usr @ '':'' @ pw))]"
  define h1 where "h1 = logged_in_by L usr pw l1 h"
  define h2 where "h2 = logged_in_by L usr pw l2 h1"
  define h3 where "h3 = logged_in_by L usr pw l3 h2"
  define h4 where "h4 = logged_in_by L usr pw l4 h3"
  define e0 where "e0 = [Requested (request_of h u ps), Requested (request_of h ''login'' (params h ?arg))]"
  define e1 where "e1 = [Requested (request_of h1 u ps), Requested (request_of h1 ''login'' (params h1 ?arg))]"
  define e2 where "e2 = [Requested (request_of h2 u ps), Requested (request_of h2 ''login'' (params h2 ?arg))]"
  define e3 where "e3 = [Requested (request_of h3 u ps), Requested (request_of h3 ''login'' (params h3 ?arg))]"
  define w1 where "w1 = w\<lparr>script := a2 # l2 # a3 # l3 # a4 # l4 # a5 # rest, trace := trace w @ e0\<rparr>"
  define w2 where "w2 = w\<lparr>script := a3 # l3 # a4 # l4 # a5 # rest, trace := trace w @ e0 @ e1\<rparr>"
  define w3 where "w3 = w\<lparr>script := a4 # l4 # a5 # rest, trace := trace w @ e0 @ e1 @ e2\<rparr>"
  define w4 where "w4 = w\<lparr>script := a5 # rest, trace := trace w @ e0 @ e1 @ e2 @ e3\<rparr>"
  define w5 where "w5 = w\<lparr>script := rest,
      trace := trace w @ e0 @ e1 @ e2 @ e3 @ [Requested (request_of h4 u ps)]\<rparr>"
  have st: "status_code a1 = 401" "status_code a2 = 401" "status_code a3 = 401"
      "status_code a4 = 401" "status_code a5 = 401"
    using denied by simp_all
  have gl: "good_login L l1" "good_login L l2" "good_login L l3" "good_login L l4"
    using logins by simp_all
  have f1: "is_loggedin h1" "username h1 = Some usr" "password h1 = Some pw" "hub_url h1 = hub_url h"
    unfolding h1_def using gl(1) by (simp_all add: logged_in_by_fields)
  have f2: "is_loggedin h2" "username h2 = Some usr" "password h2 = Some pw" "hub_url h2 = hub_url h"
    unfolding h2_def using gl(2) f1 by (simp_all add: logged_in_by_fields)
  have f3: "is_loggedin h3" "username h3 = Some usr" "password h3 = Some pw" "hub_url h3 = hub_url h"
    unfolding h3_def using gl(3) f2 by (simp_all add: logged_in_by_fields)
  have f4: "hub_url h4 = hub_url h" "credential h4 = Some (body l4)"
    unfolding h4_def using gl(4) f3 by (simp_all add: logged_in_by_fields)
  have r1: "get_loop ?re u ps 5 retry500 1 h w = get_loop ?re u ps 4 retry500 1 h1 w1"
    using get_loop_relogin_round [OF hub, of w a1 l1 _ L 5 n u ps retry500 1] script st(1) gl(1)
    by (simp add: h1_def w1_def e0_def)
  have r2: "get_loop ?re u ps 4 retry500 1 h1 w1 = get_loop ?re u ps 3 retry500 1 h2 w2"
    using get_loop_relogin_round [OF f1(1,2) hub(3) f1(3) hub(5), of w1 a2 l2 _ L 4 n u ps retry500 1]
      st(2) gl(2)
    by (simp add: h2_def w1_def w2_def e1_def)
  have r3: "get_loop ?re u ps 3 retry500 1 h2 w2 = get_loop ?re u ps 2 retry500 1 h3 w3"
    using get_loop_relogin_round [OF f2(1,2) hub(3) f2(3) hub(5), of w2 a3 l3 _ L 3 n u ps retry500 1]
      st(3) gl(3)
    by (simp add: h3_def w2_def w3_def e2_def)
  have r4: "get_loop ?re u ps 2 retry500 1 h3 w3 = get_loop ?re u ps 1 retry500 1 h4 w4"
    using get_loop_relogin_round [OF f3(1,2) hub(3) f3(3) hub(5), of w3 a4 l4 _ L 2 n u ps retry500 1]
      st(4) gl(4)
    by (simp add: h4_def w3_def w4_def e3_def)
  have r5: "get_loop ?re u ps 1 retry500 1 h4 w4 = (Inr a5, h4, w5)"
    using get_loop_done [of w4 a5 rest 1 h4 retry500 ?re u ps 1] st(5)
    by (simp add: w4_def w5_def)
  have res: "hub_get depth L u ps retry401_default retry500 h w = (Inl (HTTPError 401), h4, w5)"
    using r1 r2 r3 r4 r5 st(5)
    by (simp add: d hub_get_def retry401_default_def get_finish_def raise_for_status_def)
  have ne: "new_events w w5 = e0 @ e1 @ e2 @ e3 @ [Requested (request_of h4 u ps)]"
    by (simp add: new_events_def w5_def)
  have urls: "requested_urls (new_events w w5) =
               [hub_url h @ ''/'' @ u, hub_url h @ ''/login'',
                hub_url h @ ''/'' @ u, hub_url h @ ''/login'',
                hub_url h @ ''/'' @ u, hub_url h @ ''/login'',
                hub_url h @ ''/'' @ u, hub_url h @ ''/login'',
                hub_url h @ ''/'' @ u]"
    by (simp add: ne e0_def e1_def e2_def e3_def request_of_def f1 f2 f3 f4)
  have sl: "sleeps (new_events w w5) = []"
    by (simp add: ne e0_def e1_def e2_def e3_def)
  have cnt: "login_requests h (new_events w w5) = 4"
    using other
    by (simp add: ne e0_def e1_def e2_def e3_def request_of_def f1 f2 f3 f4 login_requests_def)
  have "script w5 = rest" by (simp add: w5_def)
  with res urls sl cnt f4(2) show ?thesis by blast
qed

theorem get_relogin_401_witness:
  "2 \<le> (2::nat) \<and> is_loggedin example_hub \<and> good_login example_lib (resp 200 envelope_b64)
   \<and> (\<exists>e h' w'.
         hub_get 2 example_lib ''snmpGet?oids=1.3.6.1.2.1.1.1;'' [] retry401_default
           retry500_default example_hub
           (fresh_world [resp 401 [], resp 200 envelope_b64, resp 401 [], resp 200 envelope_b64,
                         resp 401 [], resp 200 envelope_b64, resp 401 [], resp 200 envelope_b64,
                         resp 401 [], resp 200 envelope_b64, resp 401 []]) = (Inl e, h', w')
         \<and> script w' = [resp 200 envelope_b64, resp 401 []]
         \<and> login_requests example_hub (trace w') = 4
         \<and> credential h' = Some envelope_b64)"
proof -
  let ?w = "fresh_world [resp 401 [], resp 200 envelope_b64, resp 401 [], resp 200 envelope_b64,
                         resp 401 [], resp 200 envelope_b64, resp 401 [], resp 200 envelope_b64,
                         resp 401 [], resp 200 envelope_b64, resp 401 []]"
  have good: "good_login example_lib (resp 200 envelope_b64)"
    by (simp add: good_login_def example_lib_def resp_def raise_for_status_def envelope_b64_def)
  have hub: "is_loggedin example_hub" "username example_hub = Some ''admin''" "''admin'' \<noteq> []"
      "password example_hub = Some ''secret''" "is_ascii (''admin'' @ '':'' @ ''secret'')"
    by (simp_all add: example_hub_def is_loggedin_def is_ascii_def)
  have script: "script ?w = resp 401 [] # resp 200 envelope_b64 # resp 401 [] # resp 200 envelope_b64
        # resp 401 [] # resp 200 envelope_b64 # resp 401 [] # resp 200 envelope_b64
        # resp 401 [] # [resp 200 envelope_b64, resp 401 []]"
    by (simp add: fresh_world_def)
  have denied: "list_all (\<lambda>a. status_code a = 401)
      [resp 401 [], resp 401 [], resp 401 [], resp 401 [], resp 401 []]"
    by (simp add: resp_def)
  have logins: "list_all (good_login example_lib)
      [resp 200 envelope_b64, resp 200 envelope_b64, resp 200 envelope_b64, resp 200 envelope_b64]"
    using good by simp
  have other: "''snmpGet?oids=1.3.6.1.2.1.1.1;'' \<noteq> ''login''" by simp
  have tr: "\<And>w'. new_events ?w w' = trace w'"
    by (simp add: new_events_def fresh_world_def)
  from get_relogin_401 [OF order_refl hub script denied logins other, of "[]" retry500_default]
  obtain e h' w' where
    "hub_get 2 example_lib ''snmpGet?oids=1.3.6.1.2.1.1.1;'' [] retry401_default
       retry500_default example_hub ?w = (Inl e, h', w')"
    "script w' = [resp 200 envelope_b64, resp 401 []]"
    "login_requests example_hub (trace w') = 4"
    "credential h' = Some (body (resp 200 envelope_b64))"
    unfolding tr by blast
  then have "\<exists>e h' w'.
         hub_get 2 example_lib ''snmpGet?oids=1.3.6.1.2.1.1.1;'' [] retry401_default
           retry500_default example_hub ?w = (Inl e, h', w')
         \<and> script w' = [resp 200 envelope_b64, resp 401 []]
         \<and> login_requests example_hub (trace w') = 4
         \<and> credential h' = Some envelope_b64"
    by (auto simp: resp_def)
  with good hub(1) show ?thesis by simp
qed

text \<open>
  C1 as stated fails. The device has a sixth 401 and a fifth login answer ready, but
  \<open>_get\<close> stops at the fifth 401 after four logins, and what it raises there is the
  \<open>HTTPError\<close> of \<open>raise_for_status\<close>, not \<open>AccessDenied\<close>.
\<close>

theorem get_relogin_401_counterexample:
  "fst (hub_get 2 example_lib ''snmpGet?oids=1.3.6.1.2.1.1.1;'' [] retry401_default
          retry500_default example_hub
          (fresh_world [resp 401 [], resp 200 envelope_b64, resp 401 [], resp 200 envelope_b64,
                        resp 401 [], resp 200 envelope_b64, resp 401 [], resp 200 envelope_b64,
                        resp 401 [], resp 200 envelope_b64, resp 401 []]))
     = Inl (HTTPError 401)
   \<and> login_requests example_hub
        (trace (snd (snd (hub_get 2 example_lib ''snmpGet?oids=1.3.6.1.2.1.1.1;'' []
          retry401_default retry500_default example_hub
          (fresh_world [resp 401 [], resp 200 envelope_b64, resp 401 [], resp 200 envelope_b64,
                        resp 401 [], resp 200 envelope_b64, resp 401 [], resp 200 envelope_b64,
                        resp 401 [], resp 200 envelope_b64, resp 401 []]))))) = 4
   \<and> script (snd (snd (hub_get 2 example_lib ''snmpGet?oids=1.3.6.1.2.1.1.1;'' []
          retry401_default retry500_default example_hub
          (fresh_world [resp 401 [], resp 200 envelope_b64, resp 401 [], resp 200 envelope_b64,
                        resp 401 [], resp 200 envelope_b64, resp 401 [], resp 200 envelope_b64,
                        resp 401 [], resp 200 envelope_b64, resp 401 []]))))
     = [resp 200 envelope_b64, resp 401 []]"
  by code_simp

subsection \<open>What every call of \<open>_get\<close> keeps and sends\<close>

lemma relogin_stable:
  "login_with (get_at n L) L (username h) (password h) h w = (r, h', w') \<Longrightarrow> stable h w h' w'"
  by (erule login_with_stable [rotated]) (rule get_at_stable)

lemma stable_prefix: "stable h w h' w' \<Longrightarrow> \<exists>evs. trace w' = trace w @ evs"
  by (simp add: stable_def take_prefix_iff)

lemma hub_get_stable:
  "hub_get depth L u ps r4 r5 h w = (res, h', w') \<Longrightarrow> stable h w h' w'"
  unfolding hub_get_def by (rule get_at_stable)

text \<open>The first thing \<open>_get\<close> does is to send the request it was asked for.\<close>

lemma hub_get_first_request:
  assumes "0 < depth" and "hub_get depth L u ps r4 r5 h w = (res, h', w')"
  shows "\<exists>evs. new_events w w' = Requested (request_of h u ps) # evs"
proof -
  from assms(1) obtain n where d: "depth = Suc n" by (cases depth) auto
  let ?re = "\<lambda>h' w'. login_with (get_at n L) L (username h') (password h') h' w'"
  from assms(2) obtain res0 where loop: "get_loop ?re u ps r4 r5 1 h w = (res0, h', w')"
    by (auto simp: d hub_get_def elim: get_finish_cases)
  obtain x w1 where rg: "requests_get (request_of h u ps) w = (x, w1)"
    by (cases "requests_get (request_of h u ps) w") auto
  then have tr: "trace w1 = trace w @ [Requested (request_of h u ps)]"
    by (rule requests_get_trace)
  have rest: "\<exists>evs. trace w' = trace w1 @ evs"
  proof (cases x)
    case (Inl e)
    with rg loop show ?thesis
      by (subst (asm) get_loop.simps) (auto simp: request_of_def)
  next
    case (Inr rsp)
    consider (relog) "status_code rsp = 401 \<and> 0 < r4 - 1 \<and> is_loggedin h"
      | (retry) "\<not> (status_code rsp = 401 \<and> 0 < r4 - 1 \<and> is_loggedin h)"
                "status_code rsp = 500 \<and> 0 < r5 - 1"
      | (fin) "\<not> (status_code rsp = 401 \<and> 0 < r4 - 1 \<and> is_loggedin h)"
              "\<not> (status_code rsp = 500 \<and> 0 < r5 - 1)"
      by blast
    then show ?thesis
    proof cases
      case relog
      obtain r2 h2 w2 where rl: "?re h w1 = (r2, h2, w2)"
        by (cases "?re h w1") auto
      then have st2: "stable h w1 h2 w2" by (rule relogin_stable)
      show ?thesis
      proof (cases r2)
        case (Inl e)
        with rg Inr relog rl loop have "w' = w2"
          by (subst (asm) get_loop.simps) (simp add: request_of_def)
        with st2 show ?thesis by (auto dest: stable_prefix)
      next
        case r2: (Inr v)
        with rg Inr relog rl loop
        have "get_loop ?re u ps (r4 - 1) r5 1 h2 w2 = (res0, h', w')"
          by (subst (asm) (1) get_loop.simps) (simp add: request_of_def)
        then have "stable h2 w2 h' w'"
          by (rule get_loop_stable [rotated]) (rule relogin_stable)
        with st2 show ?thesis
          by (auto dest!: stable_prefix)
      qed
    next
      case retry
      with rg Inr loop
      have "get_loop ?re u ps r4 (r5 - 1) (1 * 2) h (w1\<lparr>trace := trace w1 @ [Slept 1]\<rparr>)
              = (res0, h', w')"
        by (subst (asm) (1) get_loop.simps) (auto simp: request_of_def)
      then have "stable h (w1\<lparr>trace := trace w1 @ [Slept 1]\<rparr>) h' w'"
        by (rule get_loop_stable [rotated]) (rule relogin_stable)
      then show ?thesis by (auto dest!: stable_prefix)
    next
      case fin
      with rg Inr loop show ?thesis
        by (subst (asm) get_loop.simps) (auto simp: request_of_def)
    qed
  qed
  with tr show ?thesis by (auto simp: new_events_def)
qed

section \<open>Properties of the session\<close>

lemma hub_get_no_relogin:
  assumes "hub_get depth L u ps 0 r5 h w = (res, h', w')"
  shows "h' = h" and "stable h w h w'" and "only_requests (request_of h u ps) (new_events w w')"
proof -
  from get_at_no_relogin [of 0 depth L u ps r5 h w res h' w'] assms
  obtain evs where *: "h' = h" "trace w' = trace w @ evs" "only_requests (request_of h u ps) evs"
    by (auto simp: hub_get_def)
  show "h' = h" by (rule *(1))
  show "stable h w h w'" using *(2) by (rule stable_trace)
  show "only_requests (request_of h u ps) (new_events w w')"
    using * by (simp add: new_events_def)
qed

lemma hub_get_401_disabled:
  assumes "0 < depth" and "script w = r # rs" and "status_code r = 401"
  shows "hub_get depth L u ps 0 r5 h w =
           (Inl (HTTPError 401), h,
            w\<lparr>script := rs, trace := trace w @ [Requested (request_of h u ps)]\<rparr>)"
proof -
  from assms(1) obtain n where d: "depth = Suc n" by (cases depth) auto
  show ?thesis
    using assms(2,3)
    by (simp add: d hub_get_def get_loop_done get_finish_def raise_for_status_def)
qed

text \<open>
  C3. \<open>logout\<close> on a hub without a credential does nothing. On a hub with a credential
  it calls \<open>_get\<close> for \<open>logout\<close> with a 401 budget of 0, so the only request that goes
  out is the one to the logout endpoint: a 401 answer is raised at once, with no login
  in between. Whether that call returns or raises, the credential, the user name and the
  password are cleared. After \<open>logout\<close>, \<open>is_loggedin\<close> is false in every case.
\<close>

theorem logout_spec:
  "(\<not> is_loggedin h \<longrightarrow> logout depth L h w = (Inr (), h, w))
   \<and> (is_loggedin h \<longrightarrow>
        (\<exists>r w1. hub_get depth L ''logout'' (nonce h) 0 retry500_default h w = (r, h, w1)
           \<and> logout depth L h w =
               (case r of Inl e \<Rightarrow> Inl e | Inr _ \<Rightarrow> Inr (),
                h\<lparr>credential := None, username := None, password := None\<rparr>, w1)
           \<and> only_requests (request_of h ''logout'' (nonce h)) (new_events w w1)
           \<and> (0 < depth \<longrightarrow>
                (\<exists>evs. new_events w w1 = Requested (request_of h ''logout'' (nonce h)) # evs))))
   \<and> (is_loggedin h \<and> 0 < depth \<and> script w = r401 # rs \<and> status_code r401 = 401 \<longrightarrow>
        logout depth L h w =
          (Inl (HTTPError 401),
           h\<lparr>credential := None, username := None, password := None\<rparr>,
           w\<lparr>script := rs,
             trace := trace w @ [Requested (request_of h ''logout'' (nonce h))]\<rparr>))
   \<and> \<not> is_loggedin (fst (snd (logout depth L h w)))"
proof -
  obtain r h1 w1 where g: "hub_get depth L ''logout'' (nonce h) 0 retry500_default h w = (r, h1, w1)"
    by (cases "hub_get depth L ''logout'' (nonce h) 0 retry500_default h w") auto
  have h1: "h1 = h"
    and only: "only_requests (request_of h ''logout'' (nonce h)) (new_events w w1)"
    using hub_get_no_relogin [OF g] by simp_all
  have noop: "\<not> is_loggedin h \<longrightarrow> logout depth L h w = (Inr (), h, w)"
    by (simp add: logout_def)
  have call: "is_loggedin h \<longrightarrow>
        (\<exists>r w1. hub_get depth L ''logout'' (nonce h) 0 retry500_default h w = (r, h, w1)
           \<and> logout depth L h w =
               (case r of Inl e \<Rightarrow> Inl e | Inr _ \<Rightarrow> Inr (),
                h\<lparr>credential := None, username := None, password := None\<rparr>, w1)
           \<and> only_requests (request_of h ''logout'' (nonce h)) (new_events w w1)
           \<and> (0 < depth \<longrightarrow>
                (\<exists>evs. new_events w w1 = Requested (request_of h ''logout'' (nonce h)) # evs)))"
    using g h1 only hub_get_first_request [of depth L "''logout''" "nonce h" 0 retry500_default h w r h1 w1]
    by (auto simp: logout_def)
  have denied: "is_loggedin h \<and> 0 < depth \<and> script w = r401 # rs \<and> status_code r401 = 401 \<longrightarrow>
        logout depth L h w =
          (Inl (HTTPError 401),
           h\<lparr>credential := None, username := None, password := None\<rparr>,
           w\<lparr>script := rs,
             trace := trace w @ [Requested (request_of h ''logout'' (nonce h))]\<rparr>)"
    by (auto simp: logout_def hub_get_401_disabled)
  have out: "\<not> is_loggedin (fst (snd (logout depth L h w)))"
    using g by (auto simp: logout_def is_loggedin_def)
  from noop call denied out show ?thesis by blast
qed

theorem logout_spec_witness:
  "is_loggedin example_hub
   \<and> logout 2 example_lib example_hub (fresh_world [resp 401 [], resp 200 envelope_b64]) =
       (Inl (HTTPError 401),
        example_hub\<lparr>credential := None, username := None, password := None\<rparr>,
        \<lparr>script = [resp 200 envelope_b64],
         trace = [Requested (request_of example_hub ''logout'' (nonce example_hub))]\<rparr>)
   \<and> \<not> is_loggedin (fst (snd (logout 2 example_lib example_hub
                                  (fresh_world [resp 401 [], resp 200 envelope_b64]))))
   \<and> logout 2 example_lib (example_hub\<lparr>credential := None\<rparr>) (fresh_world [resp 200 []]) =
       (Inr (), example_hub\<lparr>credential := None\<rparr>, fresh_world [resp 200 []])"
proof -
  have li: "is_loggedin example_hub"
    by (simp add: is_loggedin_def example_hub_def)
  have lo: "\<not> is_loggedin (example_hub\<lparr>credential := None\<rparr>)"
    by (simp add: is_loggedin_def)
  have sc: "script (fresh_world [resp 401 [], resp 200 envelope_b64]) =
      resp 401 [] # [resp 200 envelope_b64]" "status_code (resp 401 []) = 401"
    by (simp_all add: fresh_world_def resp_def)
  note a = logout_spec [of example_hub 2 example_lib
      "fresh_world [resp 401 [], resp 200 envelope_b64]" "resp 401 []" "[resp 200 envelope_b64]"]
  note b = logout_spec [of "example_hub\<lparr>credential := None\<rparr>" 2 example_lib
      "fresh_world [resp 200 []]"]
  from a li sc have
    "logout 2 example_lib example_hub (fresh_world [resp 401 [], resp 200 envelope_b64]) =
       (Inl (HTTPError 401),
        example_hub\<lparr>credential := None, username := None, password := None\<rparr>,
        fresh_world [resp 401 [], resp 200 envelope_b64]
          \<lparr>script := [resp 200 envelope_b64],
           trace := trace (fresh_world [resp 401 [], resp 200 envelope_b64]) @
                    [Requested (request_of example_hub ''logout'' (nonce example_hub))]\<rparr>)"
    by simp
  moreover from a have "\<not> is_loggedin (fst (snd (logout 2 example_lib example_hub
                                  (fresh_world [resp 401 [], resp 200 envelope_b64]))))"
    by blast
  moreover from b lo have
    "logout 2 example_lib (example_hub\<lparr>credential := None\<rparr>) (fresh_world [resp 200 []]) =
       (Inr (), example_hub\<lparr>credential := None\<rparr>, fresh_world [resp 200 []])"
    by blast
  ultimately show ?thesis using li by (simp add: fresh_world_def)
qed

lemma resolve_username_given:
  "u \<noteq> [] \<Longrightarrow> resolve_username depth L (Some u) h w = (Inr (JStr u), h, w)"
  by (simp add: resolve_username_def resolve_username_with_def)

text \<open>
  C10, as the code has it. When \<open>login\<close> raises, for whatever reason, the hub is what it
  was when the user name had been settled, just before the login request went out: the
  login request itself and the checks of its answer change nothing. So a login that is
  given a user name and fails leaves the credential, the user name, the password, the
  model name and the family as they were before the call, and \<open>is_loggedin\<close> with them.
\<close>

theorem login_failure_atomic:
  assumes "login depth L uname pw h w = (Inl e, h', w')"
  shows "h' = fst (snd (resolve_username depth L uname h w))
         \<and> (uname \<noteq> None \<and> uname \<noteq> Some [] \<longrightarrow>
              h' = h \<and> session_of h' = session_of h \<and> is_loggedin h' = is_loggedin h)"
proof -
  obtain r1 h1 w1 where res: "resolve_username_with (hub_get depth L) L uname h w = (r1, h1, w1)"
    by (cases "resolve_username_with (hub_get depth L) L uname h w") auto
  have keep: "\<And>ps r h2 w2. hub_get depth L ''login'' ps 0 retry500_default h1 w1 = (r, h2, w2) \<Longrightarrow> h2 = h1"
    by (rule hub_get_no_relogin(1))
  have first: "h' = h1"
    using assms res
    by (auto simp: login_def login_with_def dest: keep
             split: sum.splits json.splits option.splits if_splits prod.splits)
  have given: "uname \<noteq> None \<and> uname \<noteq> Some [] \<longrightarrow> h1 = h"
    using res by (auto simp: resolve_username_with_def split: option.splits if_splits)
  from first given res show ?thesis
    by (auto simp: resolve_username_def)
qed

theorem login_failure_atomic_witness:
  "login 1 example_lib (Some ''admin'') (Some ''admin'') example_hub (fresh_world [resp 200 []])
     = (Inl LoginFailed, example_hub,
        \<lparr>script = [],
         trace = [Requested (request_of example_hub ''login''
                    (params example_hub [(''arg'', ''YWRtaW46YWRtaW4='')]))]\<rparr>)
   \<and> fst (login 1 example_lib (Some ''admin'') (Some ''admin'') example_hub
            (fresh_world [resp 200 ''no envelope''])) = Inl LoginFailed
   \<and> fst (snd (login 1 example_lib (Some ''admin'') (Some ''admin'') example_hub
            (fresh_world [resp 200 ''no envelope'']))) = example_hub"
proof -
  have one: "login 1 example_lib (Some ''admin'') (Some ''admin'') example_hub
      (fresh_world [resp 200 []])
     = (Inl LoginFailed, example_hub,
        \<lparr>script = [],
         trace = [Requested (request_of example_hub ''login''
                    (params example_hub [(''arg'', ''YWRtaW46YWRtaW4='')]))]\<rparr>)"
    by code_simp
  have two: "fst (login 1 example_lib (Some ''admin'') (Some ''admin'') example_hub
            (fresh_world [resp 200 ''no envelope''])) = Inl LoginFailed"
    by code_simp
  obtain h' w' where eq:
    "login 1 example_lib (Some ''admin'') (Some ''admin'') example_hub
            (fresh_world [resp 200 ''no envelope'']) = (Inl LoginFailed, h', w')"
    using two
    by (cases "login 1 example_lib (Some ''admin'') (Some ''admin'') example_hub
            (fresh_world [resp 200 ''no envelope''])") auto
  from login_failure_atomic [OF eq] have "h' = example_hub"
    by auto
  with eq have "fst (snd (login 1 example_lib (Some ''admin'') (Some ''admin'') example_hub
            (fresh_world [resp 200 ''no envelope'']))) = example_hub"
    by simp
  with one two show ?thesis by blast
qed

text \<open>
  C10 as stated fails when the user name is left out on a hub that is logged in. The
  read of \<open>auth_username\<close> is answered with a 401, so \<open>_get\<close> logs in again with the
  stored user name and password and takes a new credential; then the login that was
  asked for, with the password \<open>admin\<close>, gets an empty body and raises \<open>LoginFailed\<close>.
  The credential, the model name and the family are no longer those before the call.
\<close>

theorem login_failure_atomic_counterexample:
  "fst (login 2 example_lib None (Some ''admin'') example_hub
          (fresh_world [resp 401 [], resp 200 envelope_b64, resp 200 username_text, resp 200 []]))
     = Inl LoginFailed
   \<and> credential (fst (snd (login 2 example_lib None (Some ''admin'') example_hub
          (fresh_world [resp 401 [], resp 200 envelope_b64, resp 200 username_text, resp 200 []]))))
     = Some envelope_b64
   \<and> credential example_hub = Some ''token''
   \<and> modelname (fst (snd (login 2 example_lib None (Some ''admin'') example_hub
          (fresh_world [resp 401 [], resp 200 envelope_b64, resp 200 username_text, resp 200 []]))))
     = JStr ''Hub 3.0''
   \<and> modelname example_hub = JNull
   \<and> session_of (fst (snd (login 2 example_lib None (Some ''admin'') example_hub
          (fresh_world [resp 401 [], resp 200 envelope_b64, resp 200 username_text, resp 200 []]))))
     \<noteq> session_of example_hub"
  by code_simp

section \<open>Properties of snmp\_set and apply\_settings\<close>

lemma snmp_set_result:
  assumes "hub_get depth L (''snmpSet?oid='' @ oid_value_of oid val dt @ '';&'' @ nonce_str h) []
             retry401_default retry500_default h w = (Inr rsp, h1, w1)"
    and "json_loads L (body rsp) = Some (JObj d)" and "oid \<in> set (map fst d)"
  shows "snmp_set depth L oid val dt h w =
           (if status_code rsp = 304 then (Inr False, h1, w1)
            else (Inr True, h1\<lparr>unapplied_settings := True\<rparr>, w1))"
proof -
  have "raise_for_status rsp = Inr ()"
    using assms(1) unfolding hub_get_def by (rule get_at_Inr)
  with assms show ?thesis
    by (simp add: snmp_set_def)
qed

lemma snmp_set_first_request:
  assumes "0 < depth" and "snmp_set depth L oid val dt h w = (res, h', w')"
  shows "\<exists>evs. new_events w w' =
           Requested (request_of h (''snmpSet?oid='' @ oid_value_of oid val dt @ '';&'' @ nonce_str h) [])
           # evs"
proof -
  obtain r1 h1 w1 where g:
    "hub_get depth L (''snmpSet?oid='' @ oid_value_of oid val dt @ '';&'' @ nonce_str h) []
             retry401_default retry500_default h w = (r1, h1, w1)"
    by (cases "hub_get depth L (''snmpSet?oid='' @ oid_value_of oid val dt @ '';&'' @ nonce_str h) []
             retry401_default retry500_default h w") auto
  with assms(2) have "w' = w1"
    by (auto simp: snmp_set_def split: sum.splits option.splits json.splits if_splits)
  with hub_get_first_request [OF assms(1) g] show ?thesis by simp
qed

text \<open>
  C7. When the answer to the set request carries the OID as a key, \<open>snmp_set\<close> returns
  \<open>False\<close> and leaves the flag of unapplied settings as it was if the status is 304, and
  otherwise returns \<open>True\<close> and sets the flag. \<open>apply_settings\<close> does nothing, and sends
  nothing, while the flag is not set. When it is set, \<open>apply_settings\<close> sets the commit
  OID to 1 with \<open>snmp_set\<close>, that request being the first it sends, and when that call
  returns the flag is cleared.
\<close>

theorem snmp_set_apply_spec:
  "(hub_get depth L (''snmpSet?oid='' @ oid_value_of oid val dt @ '';&'' @ nonce_str h) []
      retry401_default retry500_default h w = (Inr rsp, h1, w1)
    \<and> json_loads L (body rsp) = Some (JObj d) \<and> oid \<in> set (map fst d) \<longrightarrow>
      (if status_code rsp = 304
       then snmp_set depth L oid val dt h w = (Inr False, h1, w1)
            \<and> unapplied_settings h1 = unapplied_settings h
       else snmp_set depth L oid val dt h w = (Inr True, h1\<lparr>unapplied_settings := True\<rparr>, w1)))
   \<and> (\<not> unapplied_settings h \<longrightarrow> apply_settings depth L type_INT h w = (Inr (), h, w))
   \<and> (unapplied_settings h \<longrightarrow>
        apply_settings depth L type_INT h w =
          (case snmp_set depth L commit_oid (Some (VInt 1)) (Some type_INT) h w of
             (Inl e, h2, w2) \<Rightarrow> (Inl e, h2, w2)
           | (Inr changed, h2, w2) \<Rightarrow> (Inr (), h2\<lparr>unapplied_settings := False\<rparr>, w2)))
   \<and> (unapplied_settings h \<and> 0 < depth
        \<and> apply_settings depth L type_INT h w = (Inr (), h3, w3) \<longrightarrow>
        \<not> unapplied_settings h3
        \<and> (\<exists>evs. new_events w w3 =
              Requested (request_of h
                (''snmpSet?oid='' @ commit_oid @ ''=1;'' @ type_value type_INT @ '';&'' @ nonce_str h) [])
              # evs))"
proof -
  have set: "hub_get depth L (''snmpSet?oid='' @ oid_value_of oid val dt @ '';&'' @ nonce_str h) []
      retry401_default retry500_default h w = (Inr rsp, h1, w1)
    \<and> json_loads L (body rsp) = Some (JObj d) \<and> oid \<in> set (map fst d) \<longrightarrow>
      (if status_code rsp = 304
       then snmp_set depth L oid val dt h w = (Inr False, h1, w1)
            \<and> unapplied_settings h1 = unapplied_settings h
       else snmp_set depth L oid val dt h w = (Inr True, h1\<lparr>unapplied_settings := True\<rparr>, w1))"
    using snmp_set_result [of depth L oid val dt h w rsp h1 w1 d]
      hub_get_stable [of depth L _ "[]" retry401_default retry500_default h w "Inr rsp" h1 w1]
    by (auto simp: stable_def)
  have idle: "\<not> unapplied_settings h \<longrightarrow> apply_settings depth L type_INT h w = (Inr (), h, w)"
    by (simp add: apply_settings_def)
  have commit: "unapplied_settings h \<longrightarrow>
        apply_settings depth L type_INT h w =
          (case snmp_set depth L commit_oid (Some (VInt 1)) (Some type_INT) h w of
             (Inl e, h2, w2) \<Rightarrow> (Inl e, h2, w2)
           | (Inr changed, h2, w2) \<Rightarrow> (Inr (), h2\<lparr>unapplied_settings := False\<rparr>, w2))"
    by (simp add: apply_settings_def)
  have cleared: "unapplied_settings h \<and> 0 < depth
        \<and> apply_settings depth L type_INT h w = (Inr (), h3, w3) \<longrightarrow>
        \<not> unapplied_settings h3
        \<and> (\<exists>evs. new_events w w3 =
              Requested (request_of h
                (''snmpSet?oid='' @ commit_oid @ ''=1;'' @ type_value type_INT @ '';&'' @ nonce_str h) [])
              # evs)"
  proof (intro impI, elim conjE)
    assume flag: "unapplied_settings h" and d: "0 < depth"
      and ap: "apply_settings depth L type_INT h w = (Inr (), h3, w3)"
    obtain r2 h2 w2 where s: "snmp_set depth L commit_oid (Some (VInt 1)) (Some type_INT) h w
        = (r2, h2, w2)"
      by (cases "snmp_set depth L commit_oid (Some (VInt 1)) (Some type_INT) h w") auto
    from flag ap s have h3: "h3 = h2\<lparr>unapplied_settings := False\<rparr>" and w3: "w3 = w2"
      by (auto simp: apply_settings_def split: sum.splits)
    have one: "py_str 1 = ''1''"
      by (simp add: py_str_def nat_digits.simps digit_char_def char_of_eq_iff)
    have "oid_value_of commit_oid (Some (VInt 1)) (Some type_INT) =
            commit_oid @ ''=1;'' @ type_value type_INT"
      by (simp add: oid_value_of_def replace_dollar_def one)
    with snmp_set_first_request [OF d s] h3 w3
    show "\<not> unapplied_settings h3
        \<and> (\<exists>evs. new_events w w3 =
              Requested (request_of h
                (''snmpSet?oid='' @ commit_oid @ ''=1;'' @ type_value type_INT @ '';&'' @ nonce_str h) [])
              # evs)"
      by simp
  qed
  from set idle commit cleared show ?thesis by blast
qed

theorem snmp_set_apply_spec_witness:
  "snmp_set 1 example_lib ''1.3.6.1.4.1.4115.1.20.1.1.5.7.0'' (Some (VStr ''1'')) None example_hub
     (fresh_world [resp 304 set_text])
     = (Inr False, example_hub,
        \<lparr>script = [],
         trace = [Requested (request_of example_hub
                    (''snmpSet?oid=1.3.6.1.4.1.4115.1.20.1.1.5.7.0=1;;&'' @ nonce_str example_hub) [])]\<rparr>)
   \<and> snmp_set 1 example_lib ''1.3.6.1.4.1.4115.1.20.1.1.5.7.0'' (Some (VStr ''1'')) None example_hub
     (fresh_world [resp 200 set_text])
     = (Inr True, example_hub\<lparr>unapplied_settings := True\<rparr>,
        \<lparr>script = [],
         trace = [Requested (request_of example_hub
                    (''snmpSet?oid=1.3.6.1.4.1.4115.1.20.1.1.5.7.0=1;;&'' @ nonce_str example_hub) [])]\<rparr>)
   \<and> apply_settings 1 example_lib \<lparr>is_STRING = False, type_value = ''2''\<rparr> example_hub
       (fresh_world [resp 200 commit_text])
     = (Inr (), example_hub, fresh_world [resp 200 commit_text])
   \<and> apply_settings 1 example_lib \<lparr>is_STRING = False, type_value = ''2''\<rparr>
       (example_hub\<lparr>unapplied_settings := True\<rparr>) (fresh_world [resp 200 commit_text])
     = (Inr (), example_hub,
        \<lparr>script = [],
         trace = [Requested (request_of example_hub
                    (''snmpSet?oid=1.3.6.1.4.1.4115.1.20.1.1.9.0=1;2;&'' @ nonce_str example_hub) [])]\<rparr>)"
proof -
  let ?oid = "''1.3.6.1.4.1.4115.1.20.1.1.5.7.0''"
  let ?w1 = "\<lparr>script = [],
         trace = [Requested (request_of example_hub
                    (''snmpSet?oid=1.3.6.1.4.1.4115.1.20.1.1.5.7.0=1;;&'' @ nonce_str example_hub) [])]\<rparr>"
  have g304: "hub_get 1 example_lib
      (''snmpSet?oid='' @ oid_value_of ?oid (Some (VStr ''1'')) None @ '';&'' @ nonce_str example_hub) []
      retry401_default retry500_default example_hub (fresh_world [resp 304 set_text])
      = (Inr (resp 304 set_text), example_hub, ?w1)"
    by code_simp
  have g200: "hub_get 1 example_lib
      (''snmpSet?oid='' @ oid_value_of ?oid (Some (VStr ''1'')) None @ '';&'' @ nonce_str example_hub) []
      retry401_default retry500_default example_hub (fresh_world [resp 200 set_text])
      = (Inr (resp 200 set_text), example_hub, ?w1)"
    by code_simp
  have js: "\<And>c. json_loads example_lib (body (resp c set_text)) = Some (JObj [(?oid, JStr ''1'')])"
    by (simp add: example_lib_def resp_def set_text_def envelope_text_def username_text_def)
  have key: "?oid \<in> set (map fst [(?oid, JStr ''1'')])" by simp
  have a: "snmp_set 1 example_lib ?oid (Some (VStr ''1'')) None example_hub
     (fresh_world [resp 304 set_text]) = (Inr False, example_hub, ?w1)"
    using snmp_set_apply_spec [of 1 example_lib ?oid "Some (VStr ''1'')" None example_hub
        "fresh_world [resp 304 set_text]" "resp 304 set_text" example_hub ?w1
        "[(?oid, JStr ''1'')]"] g304 js key
    by (simp add: resp_def)
  have b: "snmp_set 1 example_lib ?oid (Some (VStr ''1'')) None example_hub
     (fresh_world [resp 200 set_text]) = (Inr True, example_hub\<lparr>unapplied_settings := True\<rparr>, ?w1)"
    using snmp_set_apply_spec [of 1 example_lib ?oid "Some (VStr ''1'')" None example_hub
        "fresh_world [resp 200 set_text]" "resp 200 set_text" example_hub ?w1
        "[(?oid, JStr ''1'')]"] g200 js key
    by (simp add: resp_def)
  have c: "apply_settings 1 example_lib \<lparr>is_STRING = False, type_value = ''2''\<rparr> example_hub
       (fresh_world [resp 200 commit_text])
     = (Inr (), example_hub, fresh_world [resp 200 commit_text])"
    using snmp_set_apply_spec [of 1 example_lib _ _ _ example_hub
        "fresh_world [resp 200 commit_text]" _ _ _ _ "\<lparr>is_STRING = False, type_value = ''2''\<rparr>"]
    by (simp add: example_hub_def)
  have d: "apply_settings 1 example_lib \<lparr>is_STRING = False, type_value = ''2''\<rparr>
       (example_hub\<lparr>unapplied_settings := True\<rparr>) (fresh_world [resp 200 commit_text])
     = (Inr (), example_hub,
        \<lparr>script = [],
         trace = [Requested (request_of example_hub
                    (''snmpSet?oid=1.3.6.1.4.1.4115.1.20.1.1.9.0=1;2;&'' @ nonce_str example_hub) [])]\<rparr>)"
    by code_simp
  from a b c d show ?thesis by blast
qed

section \<open>Properties of snmp\_walk\<close>

lemma py_split_nonempty: "py_split c s \<noteq> []"
  by (induction s) (auto split: list.splits)

lemma py_split_no_sep: "l \<in> set (py_split c s) \<Longrightarrow> c \<notin> set l"
  by (induction s arbitrary: l) (auto split: list.splits if_splits)

lemma py_split_single: "c \<notin> set p \<Longrightarrow> py_split c p = [p]"
  by (induction p) auto

lemma py_split_append: "c \<notin> set p \<Longrightarrow> py_split c (p @ c # r) = p # py_split c r"
  by (induction p) auto

lemma py_split_join:
  "ls \<noteq> [] \<Longrightarrow> \<forall>l\<in>set ls. c \<notin> set l \<Longrightarrow> py_split c (py_join [c] ls) = ls"
proof (induction "[c]" ls rule: py_join.induct)
  case 1
  then show ?case by simp
next
  case (2 p)
  then show ?case by (simp add: py_split_single)
next
  case (3 p q ps)
  then show ?case by (simp add: py_split_append)
qed

lemma strip_error_lines_lines:
  "py_split (CHR ''\<newline>'') (strip_error_lines t) =
     (if list_all (\<lambda>x. x = error_line) (py_split (CHR ''\<newline>'') t) then [[]]
      else filter (\<lambda>x. x \<noteq> error_line) (py_split (CHR ''\<newline>'') t))"
proof (cases "list_all (\<lambda>x. x = error_line) (py_split (CHR ''\<newline>'') t)")
  case True
  then have "filter (\<lambda>x. x \<noteq> error_line) (py_split (CHR ''\<newline>'') t) = []"
    by (auto simp: list_all_iff filter_empty_conv)
  with True show ?thesis by (simp add: strip_error_lines_def)
next
  case False
  then have ne: "filter (\<lambda>x. x \<noteq> error_line) (py_split (CHR ''\<newline>'') t) \<noteq> []"
    by (auto simp: list_all_iff filter_empty_conv)
  have "\<forall>l\<in>set (filter (\<lambda>x. x \<noteq> error_line) (py_split (CHR ''\<newline>'') t)).
          CHR ''\<newline>'' \<notin> set l"
    by (auto dest: py_split_no_sep)
  with ne False show ?thesis
    unfolding strip_error_lines_def by (simp add: py_split_join)
qed

lemma json_get_Finish:
  "(json_get d k = JStr s) = (dict_get d k = Some (JStr s))"
  by (auto simp: json_get_def split: option.splits)

lemma dict_get_dict_del:
  "dict_get (dict_del d k) k' = (if k' = k then None else dict_get d k')"
  by (induction d) (auto simp: dict_get_def dict_del_def)

text \<open>
  C4. The text that \<open>snmp_walk\<close> hands to \<open>json.loads\<close> has the lines of the response
  without those that are equal to \<open>Error in OID formatting!\<close>; a line that only
  contains that text is kept. When the text parses to an object, the result is that
  object without the key \<open>1\<close> if its value there is the string \<open>Finish\<close>, and the object
  itself otherwise; every other entry is returned as it was, in the same order.
\<close>

theorem snmp_walk_spec:
  "py_split (CHR ''\<newline>'') (strip_error_lines t) =
     (if list_all (\<lambda>x. x = error_line) (py_split (CHR ''\<newline>'') t) then [[]]
      else filter (\<lambda>x. x \<noteq> error_line) (py_split (CHR ''\<newline>'') t))
   \<and> (hub_get depth L (''walk?oids='' @ oid @ '';'' @ nonce_str h) []
         retry401_default retry500_default h w = (Inr rsp, h1, w1)
       \<and> json_loads L (strip_error_lines (body rsp)) = Some (JObj d) \<longrightarrow>
         snmp_walk depth L oid h w = (Inr (strip_finish d), h1, w1))
   \<and> (dict_get d ''1'' = Some (JStr ''Finish'') \<longrightarrow>
         strip_finish d = filter (\<lambda>p. fst p \<noteq> ''1'') d \<and> dict_get (strip_finish d) ''1'' = None)
   \<and> (dict_get d ''1'' \<noteq> Some (JStr ''Finish'') \<longrightarrow> strip_finish d = d)
   \<and> (k \<noteq> ''1'' \<longrightarrow> dict_get (strip_finish d) k = dict_get d k)"
proof -
  have walk: "hub_get depth L (''walk?oids='' @ oid @ '';'' @ nonce_str h) []
         retry401_default retry500_default h w = (Inr rsp, h1, w1)
       \<and> json_loads L (strip_error_lines (body rsp)) = Some (JObj d) \<longrightarrow>
         snmp_walk depth L oid h w = (Inr (strip_finish d), h1, w1)"
    by (simp add: snmp_walk_def)
  have fin: "dict_get d ''1'' = Some (JStr ''Finish'') \<longrightarrow>
         strip_finish d = filter (\<lambda>p. fst p \<noteq> ''1'') d \<and> dict_get (strip_finish d) ''1'' = None"
    by (simp add: strip_finish_def json_get_Finish dict_get_dict_del) (simp add: dict_del_def)
  have nofin: "dict_get d ''1'' \<noteq> Some (JStr ''Finish'') \<longrightarrow> strip_finish d = d"
    by (simp add: strip_finish_def json_get_Finish)
  have others: "k \<noteq> ''1'' \<longrightarrow> dict_get (strip_finish d) k = dict_get d k"
    by (simp add: strip_finish_def dict_get_dict_del)
  from strip_error_lines_lines [of t] walk fin nofin others show ?thesis by blast
qed

theorem snmp_walk_spec_witness:
  "strip_error_lines walk_raw = walk_clean
   \<and> snmp_walk 1 example_lib ''1.3.6.1.2.1.1'' example_hub (fresh_world [resp 200 walk_raw]) =
       (Inr [(''1.3.6.1.2.1.1.1'', JStr ''a'')], example_hub,
        \<lparr>script = [],
         trace = [Requested (request_of example_hub
                    (''walk?oids=1.3.6.1.2.1.1;'' @ nonce_str example_hub) [])]\<rparr>)"
proof -
  let ?w1 = "\<lparr>script = [],
         trace = [Requested (request_of example_hub
                    (''walk?oids=1.3.6.1.2.1.1;'' @ nonce_str example_hub) [])]\<rparr>"
  let ?d = "[(''1.3.6.1.2.1.1.1'', JStr ''a''), (''1'', JStr ''Finish'')]"
  have strip: "strip_error_lines walk_raw = walk_clean"
    by (simp add: strip_error_lines_def walk_raw_def walk_clean_def error_line_def)
  have g: "hub_get 1 example_lib (''walk?oids='' @ ''1.3.6.1.2.1.1'' @ '';'' @ nonce_str example_hub) []
         retry401_default retry500_default example_hub (fresh_world [resp 200 walk_raw])
       = (Inr (resp 200 walk_raw), example_hub, ?w1)"
    by code_simp
  have js: "json_loads example_lib (strip_error_lines (body (resp 200 walk_raw))) = Some (JObj ?d)"
    unfolding resp_def by (simp add: strip) code_simp
  have fin: "dict_get ?d ''1'' = Some (JStr ''Finish'')"
    by (simp add: dict_get_def)
  from snmp_walk_spec [of walk_raw 1 example_lib "''1.3.6.1.2.1.1''" example_hub
      "fresh_world [resp 200 walk_raw]" "resp 200 walk_raw" example_hub ?w1 ?d] g js fin
  have "snmp_walk 1 example_lib ''1.3.6.1.2.1.1'' example_hub (fresh_world [resp 200 walk_raw]) =
       (Inr (filter (\<lambda>p. fst p \<noteq> ''1'') ?d), example_hub, ?w1)"
    by simp
  with strip show ?thesis by simp
qed

section \<open>Properties of the IPv4 codec\<close>

lemma digit_value_digit_char: "d < 16 \<Longrightarrow> digit_value (digit_char d) = Some d"
  by (auto simp: digit_value_def digit_char_def Let_def)

lemma is_digit_digit_char: "d < b \<Longrightarrow> b \<le> 16 \<Longrightarrow> is_digit b (digit_char d)"
  by (simp add: is_digit_def digit_value_digit_char)

lemma py_lower_digit_char: "d < 16 \<Longrightarrow> py_lower [digit_char d] = [digit_char d]"
  by (auto simp: py_lower_def digit_char_def Let_def)

lemma nat_digits_chars:
  "2 \<le> b \<Longrightarrow> c \<in> set (nat_digits b n) \<Longrightarrow> \<exists>d<b. c = digit_char d"
proof (induction b n rule: nat_digits.induct)
  case (1 base n)
  show ?case
  proof (cases "n < base")
    case True
    with "1.prems" show ?thesis by (auto simp: nat_digits.simps [of base n])
  next
    case False
    with "1.prems" have "c \<in> set (nat_digits base (n div base)) \<or> c = digit_char (n mod base)"
      by (auto simp: nat_digits.simps [of base n])
    then show ?thesis
    proof
      assume "c \<in> set (nat_digits base (n div base))"
      with "1.IH" "1.prems"(1) False show ?thesis by auto
    next
      assume "c = digit_char (n mod base)"
      moreover have "n mod base < base" using "1.prems"(1) by simp
      ultimately show ?thesis by blast
    qed
  qed
qed

lemma nat_digits_nonempty: "nat_digits b n \<noteq> []"
  by (subst nat_digits.simps) simp

lemma nat_digits_all_digits:
  assumes "2 \<le> b" and "b \<le> 16"
  shows "list_all (is_digit b) (nat_digits b n)"
  using nat_digits_chars [OF assms(1)] is_digit_digit_char [OF _ assms(2)]
  by (fastforce simp: list_all_iff)

lemma digits_value_snoc:
  "digits_value b (xs @ [c]) = digits_value b xs * b + the (digit_value c)"
  by (simp add: digits_value_def)

lemma digits_value_nat_digits:
  "2 \<le> b \<Longrightarrow> b \<le> 16 \<Longrightarrow> digits_value b (nat_digits b n) = n"
proof (induction b n rule: nat_digits.induct)
  case (1 base n)
  show ?case
  proof (cases "n < base")
    case True
    with "1.prems" show ?thesis
      by (simp add: nat_digits.simps [of base n] digits_value_def digit_value_digit_char)
  next
    case False
    have "n mod base < base" using "1.prems"(1) by simp
    then have "n mod base < 16" using "1.prems"(2) by simp
    with False "1.prems" "1.IH" show ?thesis
      by (simp add: nat_digits.simps [of base n] digits_value_snoc digit_value_digit_char)
  qed
qed

text \<open>\<open>int(str(n)) == n\<close> for a natural number \<open>n\<close>.\<close>

lemma py_int_py_str: "py_int 10 (py_str (int n)) = Inr (int n)"
  using py_int_digits [OF nat_digits_nonempty nat_digits_all_digits, of 10 n]
  by (simp add: py_str_def digits_value_nat_digits)

lemma py_str_no_dot: "CHR ''.'' \<notin> set (py_str (int n))"
proof
  assume "CHR ''.'' \<in> set (py_str (int n))"
  then have "is_digit 10 (CHR ''.'')"
    using nat_digits_all_digits [of 10 n] by (auto simp: py_str_def list_all_iff)
  then show False by (simp add: is_digit_def digit_value_def)
qed

lemma py_split_dotted_quad:
  "py_split (CHR ''.'') (dotted_quad a b c d) =
     [py_str (int a), py_str (int b), py_str (int c), py_str (int d)]"
  by (simp add: dotted_quad_def py_split_append py_split_single py_str_no_dot)

lemma py_str_inj: "py_str (int m) = py_str (int n) \<Longrightarrow> m = n"
  by (metis py_int_py_str sum.inject(2) of_nat_eq_iff)

lemma dotted_quad_zero:
  "dotted_quad a b c d = ''0.0.0.0'' \<longleftrightarrow> a = 0 \<and> b = 0 \<and> c = 0 \<and> d = 0"
proof
  have z: "py_str (int 0) = ''0''"
    by (simp add: py_str_def nat_digits.simps digit_char_def char_of_eq_iff)
  then have zq: "dotted_quad 0 0 0 0 = ''0.0.0.0''"
    by (simp add: dotted_quad_def)
  {
    assume "dotted_quad a b c d = ''0.0.0.0''"
    then have "py_split (CHR ''.'') (dotted_quad a b c d) = py_split (CHR ''.'') (dotted_quad 0 0 0 0)"
      by (simp only: zq)
    then have "py_str (int a) = py_str (int 0)" "py_str (int b) = py_str (int 0)"
        "py_str (int c) = py_str (int 0)" "py_str (int d) = py_str (int 0)"
      by (simp_all only: py_split_dotted_quad list.inject)
    then show "a = 0 \<and> b = 0 \<and> c = 0 \<and> d = 0"
      using py_str_inj [of a 0] py_str_inj [of b 0] py_str_inj [of c 0] py_str_inj [of d 0]
      by simp
  }
  assume "a = 0 \<and> b = 0 \<and> c = 0 \<and> d = 0"
  then show "dotted_quad a b c d = ''0.0.0.0''" using zq by simp
qed

lemma digit_char_zero: "digit_char 0 = CHR ''0''"
  by (simp add: digit_char_def char_of_eq_iff)

text \<open>The two hex digits that \<open>tohex\<close> writes for an octet.\<close>

lemma nat_digits_16_octet:
  assumes "n < 256"
  shows "replicate (2 - length (nat_digits 16 n)) (CHR ''0'') @ nat_digits 16 n =
           [digit_char (n div 16), digit_char (n mod 16)]"
proof (cases "n < 16")
  case True
  then show ?thesis
    by (simp add: nat_digits.simps [of 16 n] digit_char_zero)
next
  case False
  with assms have "n div 16 < 16" by simp
  with False show ?thesis
    by (simp add: nat_digits.simps [of 16 n] nat_digits.simps [of 16 "n div 16"])
qed

lemma py_lower_hex: "py_lower (nat_digits 16 n) = nat_digits 16 n"
proof -
  have "\<forall>c\<in>set (nat_digits 16 n). py_lower [c] = [c]"
    using nat_digits_chars [of 16 _ n] py_lower_digit_char by fastforce
  then show ?thesis
    by (auto simp: py_lower_def map_idI)
qed

lemma tohex_octet:
  assumes "n < 256"
  shows "tohex (py_str (int n)) = Inr [digit_char (n div 16), digit_char (n mod 16)]"
  using nat_digits_16_octet [OF assms]
  by (simp add: tohex_def py_int_py_str py_hex_def py_lower_hex)

lemma py_int_octet:
  assumes "n < 256"
  shows "py_int 16 [digit_char (n div 16), digit_char (n mod 16)] = Inr (int n)"
proof -
  from assms have lt: "n div 16 < 16" "n mod 16 < 16" by simp_all
  have "py_int 16 [digit_char (n div 16), digit_char (n mod 16)] =
          Inr (int (digits_value 16 [digit_char (n div 16), digit_char (n mod 16)]))"
    by (rule py_int_digits) (simp_all add: is_digit_digit_char lt)
  also have "digits_value 16 [digit_char (n div 16), digit_char (n mod 16)] = n"
    using lt by (simp add: digits_value_def digit_value_digit_char)
  finally show ?thesis .
qed

lemma ipv4_to_dollar_dotted_quad:
  assumes "a < 256" "b < 256" "c < 256" "d < 256"
  shows "ipv4_to_dollar (dotted_quad a b c d) =
           Inr (CHR ''$'' # [digit_char (a div 16), digit_char (a mod 16),
                             digit_char (b div 16), digit_char (b mod 16),
                             digit_char (c div 16), digit_char (c mod 16),
                             digit_char (d div 16), digit_char (d mod 16)])"
  using assms by (simp add: ipv4_to_dollar_def py_split_dotted_quad tohex_octet)

lemma extract_ip_octets:
  assumes "a < 256" "b < 256" "c < 256" "d < 256"
  shows "extract_ip (CHR ''$'' # [digit_char (a div 16), digit_char (a mod 16),
                             digit_char (b div 16), digit_char (b mod 16),
                             digit_char (c div 16), digit_char (c mod 16),
                             digit_char (d div 16), digit_char (d mod 16)]) z =
           (if dotted_quad a b c d = ''0.0.0.0'' \<and> z then Inr None
            else Inr (Some (dotted_quad a b c d)))"
  using assms unfolding extract_ip_def
  by (simp add: py_slice_def py_int_octet dotted_quad_def Let_def)

text \<open>
  C5, as the code has it. For the dotted-quad text of four octets, decoding the encoded
  wire form gives the address back, except for \<open>0.0.0.0\<close>: with the default
  \<open>zero_is_none\<close> the decoder returns \<open>None\<close> for it. With \<open>zero_is_none=False\<close> every
  address comes back.
\<close>

theorem ipv4_roundtrip_spec:
  assumes "a < 256" "b < 256" "c < 256" "d < 256"
  shows "ipv4_roundtrip (dotted_quad a b c d) zero_is_none_default =
           (if a = 0 \<and> b = 0 \<and> c = 0 \<and> d = 0 then Inr None
            else Inr (Some (dotted_quad a b c d)))
         \<and> ipv4_roundtrip (dotted_quad a b c d) False = Inr (Some (dotted_quad a b c d))"
  using assms
  by (simp add: ipv4_roundtrip_def ipv4_to_dollar_dotted_quad extract_ip_octets
                dotted_quad_zero zero_is_none_default_def)

theorem ipv4_roundtrip_spec_witness:
  "(192::nat) < 256 \<and> (168::nat) < 256 \<and> (4::nat) < 256 \<and> (100::nat) < 256
   \<and> dotted_quad 192 168 4 100 = ''192.168.4.100''
   \<and> ipv4_to_dollar ''192.168.4.100'' = Inr ''$c0a80464''
   \<and> ipv4_roundtrip ''192.168.4.100'' zero_is_none_default = Inr (Some ''192.168.4.100'')"
proof -
  have dq: "dotted_quad 192 168 4 100 = ''192.168.4.100''"
    by code_simp
  have enc: "ipv4_to_dollar ''192.168.4.100'' = Inr ''$c0a80464''"
    by code_simp
  from ipv4_roundtrip_spec [of 192 168 4 100]
  have "ipv4_roundtrip ''192.168.4.100'' zero_is_none_default = Inr (Some ''192.168.4.100'')"
    by (simp add: dq)
  with dq enc show ?thesis by simp
qed

text \<open>
  C5 as stated fails at the valid address \<open>0.0.0.0\<close>: its wire form \<open>$00000000\<close> decodes,
  by default, to \<open>None\<close>.
\<close>

theorem ipv4_roundtrip_zero_counterexample:
  "dotted_quad 0 0 0 0 = ''0.0.0.0''
   \<and> ipv4_to_dollar ''0.0.0.0'' = Inr ''$00000000''
   \<and> ipv4_roundtrip ''0.0.0.0'' zero_is_none_default = Inr None
   \<and> ipv4_roundtrip ''0.0.0.0'' zero_is_none_default \<noteq> Inr (Some ''0.0.0.0'')"
  by code_simp

section \<open>Properties of snmp\_table\<close>

subsection \<open>map\_err, groupby and dictionaries\<close>

lemma map_err_Inr:
  "(\<And>x. x \<in> set xs \<Longrightarrow> f x = Inr (g x)) \<Longrightarrow> map_err f xs = Inr (map g xs)"
  by (induction xs) auto

lemma groupby_keys: "fst ` set (groupby f xs) = f ` set xs"
proof (induction f xs rule: groupby.induct)
  case (1 f)
  then show ?case by simp
next
  case (2 f x xs)
  have "set xs = set (takeWhile (\<lambda>y. f y = f x) xs) \<union> set (dropWhile (\<lambda>y. f y = f x) xs)"
    by (metis set_append takeWhile_dropWhile_id)
  moreover have "f ` set (takeWhile (\<lambda>y. f y = f x) xs) \<subseteq> {f x}"
    by (auto dest: set_takeWhileD)
  ultimately show ?case using 2 by auto
qed

lemma sorted_takeWhile_filter:
  assumes "sorted (map f xs)" and "\<forall>y\<in>set xs. k \<le> f y"
  shows "takeWhile (\<lambda>y. f y = k) xs = filter (\<lambda>y. f y = k) xs"
  using assms
proof (induction xs)
  case Nil
  then show ?case by simp
next
  case (Cons a xs)
  show ?case
  proof (cases "f a = k")
    case True
    with Cons show ?thesis by simp
  next
    case False
    with Cons.prems have "k < f a" by (simp add: order_less_le)
    with Cons.prems(1) have "\<forall>y\<in>set xs. f y \<noteq> k" by auto
    with False show ?thesis by (simp add: filter_empty_conv)
  qed
qed

lemma sorted_dropWhile_greater:
  assumes "sorted (map f xs)" and "\<forall>y\<in>set xs. k \<le> f y"
    and "y \<in> set (dropWhile (\<lambda>y. f y = k) xs)"
  shows "k < f y"
  using assms
proof (induction xs)
  case Nil
  then show ?case by simp
next
  case (Cons a xs)
  show ?case
  proof (cases "f a = k")
    case True
    with Cons show ?thesis by simp
  next
    case False
    with Cons.prems have "k < f a" by (simp add: order_less_le)
    moreover from Cons.prems(3) False have "y = a \<or> y \<in> set xs" by simp
    ultimately show ?thesis using Cons.prems(1) by auto
  qed
qed

text \<open>On a list that is sorted by the key, a group holds all the elements with its key.\<close>

lemma groupby_sorted:
  fixes f :: "'a \<Rightarrow> 'k::linorder"
  assumes "sorted (map f xs)" and "(r, g) \<in> set (groupby f xs)"
  shows "g = filter (\<lambda>y. f y = r) xs"
  using assms
proof (induction f xs rule: groupby.induct)
  case (1 f)
  then show ?case by simp
next
  case (2 f x xs)
  have low: "\<forall>y\<in>set xs. f x \<le> f y" using "2.prems"(1) by simp
  have srt: "sorted (map f xs)" using "2.prems"(1) by simp
  have tw: "takeWhile (\<lambda>y. f y = f x) xs = filter (\<lambda>y. f y = f x) xs"
    using srt low by (rule sorted_takeWhile_filter)
  from "2.prems"(2) consider (first) "r = f x" "g = x # takeWhile (\<lambda>y. f y = f x) xs"
    | (later) "(r, g) \<in> set (groupby f (dropWhile (\<lambda>y. f y = f x) xs))"
    by auto
  then show ?case
  proof cases
    case first
    then show ?thesis by (simp add: tw)
  next
    case later
    have "sorted (map f (dropWhile (\<lambda>y. f y = f x) xs))"
      using srt by (simp add: sorted_wrt_map)
    with "2.IH" later have g: "g = filter (\<lambda>y. f y = r) (dropWhile (\<lambda>y. f y = f x) xs)"
      by blast
    from later have "r \<in> f ` set (dropWhile (\<lambda>y. f y = f x) xs)"
      using groupby_keys [of f "dropWhile (\<lambda>y. f y = f x) xs"] by force
    then have "f x < r"
      using sorted_dropWhile_greater [OF srt low] by auto
    then have ne: "f x \<noteq> r" by simp
    have "filter (\<lambda>y. f y = r) xs =
            filter (\<lambda>y. f y = r) (takeWhile (\<lambda>y. f y = f x) xs)
            @ filter (\<lambda>y. f y = r) (dropWhile (\<lambda>y. f y = f x) xs)"
      by (metis filter_append takeWhile_dropWhile_id)
    moreover have "filter (\<lambda>y. f y = r) (takeWhile (\<lambda>y. f y = f x) xs) = []"
      using ne by (auto simp: filter_empty_conv dest: set_takeWhileD)
    ultimately show ?thesis using g ne by simp
  qed
qed

lemma groupby_sorted_keys:
  fixes f :: "'a \<Rightarrow> 'k::linorder"
  assumes "sorted (map f xs)"
  shows "sorted_wrt (<) (map fst (groupby f xs))"
  using assms
proof (induction f xs rule: groupby.induct)
  case (1 f)
  then show ?case by simp
next
  case (2 f x xs)
  have low: "\<forall>y\<in>set xs. f x \<le> f y" using "2.prems"(1) by simp
  have srt: "sorted (map f xs)" using "2.prems"(1) by simp
  have "sorted (map f (dropWhile (\<lambda>y. f y = f x) xs))"
    using srt by (simp add: sorted_wrt_map)
  with "2.IH" have ih: "sorted_wrt (<) (map fst (groupby f (dropWhile (\<lambda>y. f y = f x) xs)))"
    by blast
  have "\<forall>r\<in>set (map fst (groupby f (dropWhile (\<lambda>y. f y = f x) xs))). f x < r"
    using groupby_keys [of f "dropWhile (\<lambda>y. f y = f x) xs"]
      sorted_dropWhile_greater [OF srt low]
    by auto
  with ih show ?case by simp
qed

lemma dict_get_dict_set:
  "dict_get (dict_set d k v) k' = (if k' = k then Some v else dict_get d k')"
  by (induction d) (auto simp: dict_get_def)

text \<open>After \<open>d.update(kvs)\<close> a key has the value of its last pair in \<open>kvs\<close>.\<close>

lemma dict_get_dict_update:
  "dict_get (dict_update d kvs) n =
     (case filter (\<lambda>p. fst p = n) kvs of
        [] \<Rightarrow> dict_get d n
      | p # ps \<Rightarrow> Some (snd (last (p # ps))))"
proof (induction kvs arbitrary: d)
  case Nil
  then show ?case by (simp add: dict_update_def)
next
  case (Cons q kvs)
  have step: "dict_update d (q # kvs) = dict_update (dict_set d (fst q) (snd q)) kvs"
    by (simp add: dict_update_def)
  show ?case
    unfolding step Cons.IH
    by (auto simp: dict_get_dict_set split: list.splits)
qed

lemma json_get_cells:
  "n \<in> set names \<Longrightarrow> json_get (map (\<lambda>name. (name, F name)) names) n = F n"
  by (induction names) (auto simp: json_get_def dict_get_def)

subsection \<open>The rows of a table\<close>

lemma sorted_fst_fst:
  fixes xs :: "(('a::linorder \<times> 'b::linorder) \<times> 'c) list"
  assumes "sorted (map fst xs)"
  shows "sorted (map (\<lambda>k. fst (fst k)) xs)"
proof -
  from assms have "sorted_wrt (\<lambda>x y. fst x \<le> fst y) xs"
    by (simp add: sorted_map)
  then have "sorted_wrt (\<lambda>x y. fst (fst x) \<le> fst (fst y)) xs"
    by (rule sorted_wrt_mono_rel [rotated]) (auto simp: less_eq_prod_def)
  then show ?thesis by (simp add: sorted_map)
qed

lemma table_rows_explicit:
  assumes ok: "namedtuple_ok (map snd columns @ [''row_idx''])"
    and dict: "distinct (map fst columns)"
    and ints: "\<forall>x\<in>set walked. survives top_oid columns x \<longrightarrow> (\<exists>r. row_num top_oid (fst x) = Inr r)"
  shows "\<exists>rows. table_rows top_oid columns walked = Inr rows
           \<and> sorted_wrt (<) (map row_idx rows)
           \<and> set (map row_idx rows) =
               {r. \<exists>x\<in>set walked. survives top_oid columns x \<and> row_num top_oid (fst x) = Inr r}
           \<and> (\<forall>row\<in>set rows. map fst (cells row) = map snd columns)
           \<and> (\<forall>row\<in>set rows. \<forall>c\<in>set columns.
                 json_get (cells row) (snd c) = cell_value top_oid walked (row_idx row) (fst c))"
proof -
  define col where "col = (\<lambda>x :: string \<times> json. col_num top_oid (fst x))"
  define rn where "rn = (\<lambda>x :: string \<times> json. projr (row_num top_oid (fst x)))"
  define S where "S = filter (survives top_oid columns) walked"
  define K where "K = (\<lambda>x. ((rn x, col x), x))"
  define srt where "srt = sort_key fst (map K S)"
  define groups where "groups = groupby (\<lambda>k. fst (fst k)) srt"
  define NC where "NC = (\<lambda>x :: string \<times> json. (the (dict_get columns (col x)), snd x))"
  define MR where "MR = (\<lambda>g :: int \<times> ((int \<times> string) \<times> (string \<times> json)) list.
      \<lparr>row_idx = fst g,
       cells = map (\<lambda>name. (name, json_get (dict_update [] (map NC (map snd (snd g)))) name))
                   (map snd columns)\<rparr>)"
  have names: "distinct (map snd columns)"
    using ok by (simp add: namedtuple_ok_def)
  have rowS: "row_num top_oid (fst x) = Inr (rn x)" if "x \<in> set S" for x
    using that ints by (auto simp: S_def rn_def)
  have survS: "survives top_oid columns x" if "x \<in> set S" for x
    using that by (simp add: S_def)
  have keyed: "map_err (keyed top_oid) S = Inr (map K S)"
    by (rule map_err_Inr) (simp add: keyed_def K_def col_def rowS)
  have set_srt: "set srt = K ` set S"
    by (simp add: srt_def)
  have sorted1: "sorted (map fst srt)"
    by (simp add: srt_def sorted_sort_key)
  have sorted2: "sorted (map (\<lambda>k. fst (fst k)) srt)"
    using sorted1 by (rule sorted_fst_fst)
  have grp: "g = filter (\<lambda>k. fst (fst k) = r) srt" if "(r, g) \<in> set groups" for r g
    using groupby_sorted [OF sorted2] that by (simp add: groups_def)
  have inS: "x \<in> set S" if "g \<in> set groups" "x \<in> set (map snd (snd g))" for g x
  proof -
    from that(1) have "snd g = filter (\<lambda>k. fst (fst k) = fst g) srt"
      using grp [of "fst g" "snd g"] by simp
    with that(2) have "x \<in> snd ` set srt" by auto
    then show ?thesis by (auto simp: set_srt K_def)
  qed
  have nameS: "dict_get columns (col x) = Some (fst (NC x))" if "x \<in> set S" for x
  proof -
    from survS [OF that] have "col x \<in> fst ` set columns"
      by (simp add: survives_def col_def)
    then obtain n where "map_of columns (col x) = Some n"
      by (metis domD dom_map_of_conv_image_fst)
    then show ?thesis by (simp add: NC_def dict_get_def)
  qed
  have make: "make_row top_oid columns (fst g) (map snd (snd g)) = Inr (MR g)"
    if "g \<in> set groups" for g
  proof -
    have "map_err (named_cell top_oid columns) (map snd (snd g)) = Inr (map NC (map snd (snd g)))"
    proof (rule map_err_Inr)
      fix x assume "x \<in> set (map snd (snd g))"
      then have "x \<in> set S" using that inS by blast
      from nameS [OF this] obtain n where n: "dict_get columns (col_num top_oid (fst x)) = Some n"
        by (auto simp: col_def)
      show "named_cell top_oid columns x = Inr (NC x)"
        by (simp add: named_cell_def NC_def col_def n)
    qed
    then show ?thesis by (simp add: make_row_def MR_def)
  qed
  have rows: "table_rows top_oid columns walked = Inr (map MR groups)"
  proof -
    have "map_err (\<lambda>g. make_row top_oid columns (fst g) (map snd (snd g))) groups
            = Inr (map MR groups)"
      by (rule map_err_Inr) (rule make)
    moreover have "filter (\<lambda>x. col_num top_oid (fst x) \<in> fst ` set columns) walked = S"
      by (simp add: S_def survives_def [abs_def])
    ultimately show ?thesis
      using ok keyed
      by (simp add: table_rows_def srt_def groups_def)
  qed
  have idx: "map row_idx (map MR groups) = map fst groups"
    by (simp add: MR_def comp_def)
  have "sorted_wrt (<) (map fst groups)"
    unfolding groups_def using sorted2 by (rule groupby_sorted_keys)
  then have asc: "sorted_wrt (<) (map row_idx (map MR groups))"
    by (simp only: idx)
  have keys: "set (map row_idx (map MR groups)) =
      {r. \<exists>x\<in>set walked. survives top_oid columns x \<and> row_num top_oid (fst x) = Inr r}"
  proof -
    have "set (map fst groups) = (\<lambda>k. fst (fst k)) ` set srt"
      using groupby_keys [of "\<lambda>k. fst (fst k)" srt] by (simp add: groups_def)
    also have "\<dots> = rn ` set S"
      by (auto simp: set_srt K_def image_image)
    also have "\<dots> = {r. \<exists>x\<in>set walked. survives top_oid columns x \<and> row_num top_oid (fst x) = Inr r}"
    proof (intro set_eqI iffI)
      fix r assume "r \<in> rn ` set S"
      then obtain x where x: "x \<in> set S" "r = rn x" by blast
      then show "r \<in> {r. \<exists>x\<in>set walked. survives top_oid columns x \<and> row_num top_oid (fst x) = Inr r}"
        using rowS [OF x(1)] by (auto simp: S_def)
    next
      fix r assume "r \<in> {r. \<exists>x\<in>set walked. survives top_oid columns x \<and> row_num top_oid (fst x) = Inr r}"
      then obtain x where "x \<in> set S" "row_num top_oid (fst x) = Inr r"
        by (auto simp: S_def)
      then show "r \<in> rn ` set S" by (force simp: rn_def)
    qed
    finally show ?thesis by (simp only: idx)
  qed
  have fields: "\<forall>row\<in>set (map MR groups). map fst (cells row) = map snd columns"
    by (auto simp: MR_def comp_def)
  have vals: "json_get (cells (MR g)) (snd c) = cell_value top_oid walked (row_idx (MR g)) (fst c)"
    if g: "g \<in> set groups" and c: "c \<in> set columns" for g c
  proof -
    obtain r gs where rg: "g = (r, gs)" by (cases g)
    obtain seg name where sn: "c = (seg, name)" by (cases c)
    have gs: "gs = filter (\<lambda>k. fst (fst k) = r) srt"
      using grp g rg by blast
    have inj: "inj_on snd (set columns)"
      using names by (simp add: distinct_map)
    have colname: "(fst (NC x) = name) = (col x = seg)" if "x \<in> set S" for x
    proof
      assume "fst (NC x) = name"
      with nameS [OF that] have "map_of columns (col x) = Some name"
        by (simp add: dict_get_def)
      then have "(col x, name) \<in> set columns"
        by (rule map_of_SomeD)
      with c sn inj_onD [OF inj, of "(col x, name)" "(seg, name)"]
      show "col x = seg" by simp
    next
      assume "col x = seg"
      moreover have "map_of columns seg = Some name"
        using dict c sn by simp
      ultimately have "dict_get columns (col x) = Some name"
        by (simp add: dict_get_def)
      with nameS [OF that] show "fst (NC x) = name" by simp
    qed
    define es where "es = filter (\<lambda>x. rn x = r \<and> col x = seg) S"
    have sel1: "filter (\<lambda>x. fst (NC x) = name) (map snd gs) = filter (\<lambda>x. col x = seg) (map snd gs)"
    proof (rule filter_cong [OF refl])
      fix x assume "x \<in> set (map snd gs)"
      then have "x \<in> set S" using inS [OF g] by (simp add: rg)
      then show "(fst (NC x) = name) = (col x = seg)" by (rule colname)
    qed
    have sel2: "filter (\<lambda>x. col x = seg) (map snd gs) = map snd (filter (\<lambda>k. col (snd k) = seg) gs)"
      by (simp add: filter_map comp_def)
    have sel3: "filter (\<lambda>k. col (snd k) = seg) gs = filter (\<lambda>k. fst k = (r, seg)) srt"
      unfolding gs filter_filter
    proof (rule filter_cong [OF refl])
      fix k assume "k \<in> set srt"
      then obtain x where "k = K x" using set_srt by auto
      then show "(fst (fst k) = r \<and> col (snd k) = seg) = (fst k = (r, seg))"
        by (simp add: K_def)
    qed
    have sel4: "filter (\<lambda>k. fst k = (r, seg)) srt = filter (\<lambda>k. fst k = (r, seg)) (map K S)"
      unfolding srt_def by (rule sort_key_stable)
    have sel5: "map snd (filter (\<lambda>k. fst k = (r, seg)) (map K S)) = es"
      by (simp add: filter_map comp_def K_def es_def)
    have sel: "filter (\<lambda>x. fst (NC x) = name) (map snd gs) = es"
      by (simp only: sel1 sel2 sel3 sel4 sel5)
    have es_walk: "es = filter (\<lambda>x. col_num top_oid (fst x) = seg
                                    \<and> row_num top_oid (fst x) = Inr r) walked"
      unfolding es_def S_def filter_filter
    proof (rule filter_cong [OF refl])
      fix x assume xw: "x \<in> set walked"
      show "(survives top_oid columns x \<and> rn x = r \<and> col x = seg) =
            (col_num top_oid (fst x) = seg \<and> row_num top_oid (fst x) = Inr r)"
      proof (cases "col_num top_oid (fst x) = seg")
        case False
        then show ?thesis by (simp add: col_def)
      next
        case True
        then have sv: "survives top_oid columns x"
          using c sn by (force simp: survives_def)
        with ints xw obtain r' where "row_num top_oid (fst x) = Inr r'" by blast
        with True sv show ?thesis by (simp add: col_def rn_def)
      qed
    qed
    have name_in: "name \<in> set (map snd columns)" using c sn by force
    have "filter (\<lambda>p. fst p = name) (map NC (map snd gs)) =
            map NC (filter (\<lambda>x. fst (NC x) = name) (map snd gs))"
      by (simp only: filter_map comp_def)
    then have kv: "filter (\<lambda>p. fst p = name) (map NC (map snd gs)) = map NC es"
      by (simp only: sel)
    have cm: "cells (MR g) =
        map (\<lambda>name. (name, json_get (dict_update [] (map NC (map snd gs))) name)) (map snd columns)"
      by (simp add: MR_def rg del: map_map)
    have "json_get (cells (MR g)) (snd c) =
            json_get (dict_update [] (map NC (map snd gs))) name"
      unfolding cm sn snd_conv by (rule json_get_cells [OF name_in])
    also have "\<dots> = (case map NC es of [] \<Rightarrow> JNull | p # ps \<Rightarrow> snd (last (p # ps)))"
      unfolding json_get_def dict_get_dict_update kv
      by (simp add: dict_get_def split: list.splits)
    also have "\<dots> = (case es of [] \<Rightarrow> JNull | e # es' \<Rightarrow> snd (last (e # es')))"
    proof (cases es)
      case Nil
      then show ?thesis by simp
    next
      case (Cons e es')
      have "last (map NC (e # es')) = NC (last (e # es'))"
        by (rule last_map) simp
      then show ?thesis by (simp add: Cons NC_def)
    qed
    finally show ?thesis
      by (simp add: cell_value_def es_walk MR_def rg sn)
  qed
  have cells: "\<forall>row\<in>set (map MR groups). \<forall>c\<in>set columns.
                 json_get (cells row) (snd c) = cell_value top_oid walked (row_idx row) (fst c)"
    using vals by auto
  from rows asc keys fields cells show ?thesis by blast
qed

lemma drop_top_oid: "drop (length t + 1) (t @ CHR ''.'' # rest) = rest"
  by simp

lemma py_int_1_2: "py_int 10 ''1'' = Inr 1" "py_int 10 ''2'' = Inr 2"
  by (simp_all add: py_int_def py_isspace_def is_digit_def digit_value_def digits_value_def)

lemma example_segments:
  "col_num t (t @ ''.2.1'') = ''2''" "row_num t (t @ ''.2.1'') = Inr 1"
  "col_num t (t @ ''.3.1'') = ''3''" "row_num t (t @ ''.3.1'') = Inr 1"
  "col_num t (t @ ''.2.2'') = ''2''" "row_num t (t @ ''.2.2'') = Inr 2"
  unfolding col_num_def row_num_def
  using drop_top_oid [of t] by (simp_all add: py_int_1_2)

lemma example_namedtuple: "namedtuple_ok (map snd [(''2'', ''a''), (''3'', ''b'')] @ [''row_idx''])"
  by (simp add: namedtuple_ok_def isidentifier_def is_ident_start_def is_ident_char_def kwlist_def)

lemma example_table:
  "table_rows t [(''2'', ''a''), (''3'', ''b'')]
     [(t @ ''.2.1'', v1), (t @ ''.3.1'', v2), (t @ ''.2.2'', v3)] =
   Inr [\<lparr>row_idx = 1, cells = [(''a'', v1), (''b'', v2)]\<rparr>,
        \<lparr>row_idx = 2, cells = [(''a'', v3), (''b'', JNull)]\<rparr>]"
proof -
  let ?K1 = "((1::int, ''2''), (t @ ''.2.1'', v1))"
  let ?K2 = "((1::int, ''3''), (t @ ''.3.1'', v2))"
  let ?K3 = "((2::int, ''2''), (t @ ''.2.2'', v3))"
  have flt: "filter (\<lambda>x. col_num t (fst x) \<in> set (map fst [(''2'', ''a''), (''3'', ''b'')]))
      [(t @ ''.2.1'', v1), (t @ ''.3.1'', v2), (t @ ''.2.2'', v3)] =
      [(t @ ''.2.1'', v1), (t @ ''.3.1'', v2), (t @ ''.2.2'', v3)]"
    by (simp add: example_segments)
  have ks: "map_err (keyed t) [(t @ ''.2.1'', v1), (t @ ''.3.1'', v2), (t @ ''.2.2'', v3)] =
      Inr [?K1, ?K2, ?K3]"
    by (simp add: keyed_def example_segments)
  have srt: "sort_key fst [?K1, ?K2, ?K3] = [?K1, ?K2, ?K3]"
    by (simp add: less_eq_prod_def)
  have grp: "groupby (\<lambda>k. fst (fst k)) [?K1, ?K2, ?K3] = [(1, [?K1, ?K2]), (2, [?K3])]"
    by simp
  have r1: "make_row t [(''2'', ''a''), (''3'', ''b'')] 1 [(t @ ''.2.1'', v1), (t @ ''.3.1'', v2)] =
      Inr \<lparr>row_idx = 1, cells = [(''a'', v1), (''b'', v2)]\<rparr>"
    by (simp add: make_row_def named_cell_def example_segments dict_get_def dict_update_def
                  json_get_def)
  have r2: "make_row t [(''2'', ''a''), (''3'', ''b'')] 2 [(t @ ''.2.2'', v3)] =
      Inr \<lparr>row_idx = 2, cells = [(''a'', v3), (''b'', JNull)]\<rparr>"
    by (simp add: make_row_def named_cell_def example_segments dict_get_def dict_update_def
                  json_get_def)
  show ?thesis
    unfolding table_rows_def Let_def flt ks
    using example_namedtuple
    by (simp add: srt grp r1 r2)
qed

text \<open>
  C6. Let the column names make a valid namedtuple, the column segments be distinct, and
  every entry of the walk whose column segment is in \<open>columns\<close> have an integer after
  it. Then \<open>snmp_table\<close> builds its rows without failing, and
  \<^item> the row indices ascend strictly;
  \<^item> they are exactly the row indices of the entries whose column segment is in
    \<open>columns\<close>: a row exists if and only if one of its columns survived the filter;
  \<^item> every row has one cell for each column, in the order of \<open>columns\<close>;
  \<^item> the cell of a column holds the value of the entry with that column segment and
    the row's index, and \<open>None\<close> when the walk has no such entry.
  In particular the columns 2 as \<open>a\<close> and 3 as \<open>b\<close> with entries for \<open>top.2.1\<close>,
  \<open>top.3.1\<close> and \<open>top.2.2\<close> give the row 1 and then the row 2, whose \<open>b\<close> is \<open>None\<close>.
\<close>

theorem table_rows_spec:
  "(namedtuple_ok (map snd columns @ [''row_idx'']) \<and> distinct (map fst columns)
    \<and> (\<forall>x\<in>set walked. survives top_oid columns x \<longrightarrow> (\<exists>r. row_num top_oid (fst x) = Inr r))
    \<longrightarrow>
     (\<exists>rows. table_rows top_oid columns walked = Inr rows
        \<and> sorted_wrt (<) (map row_idx rows)
        \<and> set (map row_idx rows) =
            {r. \<exists>x\<in>set walked. survives top_oid columns x \<and> row_num top_oid (fst x) = Inr r}
        \<and> (\<forall>row\<in>set rows. map fst (cells row) = map snd columns)
        \<and> (\<forall>row\<in>set rows. \<forall>c\<in>set columns.
              json_get (cells row) (snd c) = cell_value top_oid walked (row_idx row) (fst c))))
   \<and> table_rows t [(''2'', ''a''), (''3'', ''b'')]
        [(t @ ''.2.1'', v1), (t @ ''.3.1'', v2), (t @ ''.2.2'', v3)] =
      Inr [\<lparr>row_idx = 1, cells = [(''a'', v1), (''b'', v2)]\<rparr>,
           \<lparr>row_idx = 2, cells = [(''a'', v3), (''b'', JNull)]\<rparr>]"
  using table_rows_explicit [of columns walked top_oid] example_table [of t v1 v2 v3]
  by blast

theorem table_rows_spec_witness:
  "namedtuple_ok (map snd [(''2'', ''a''), (''3'', ''b'')] @ [''row_idx''])
   \<and> distinct (map fst [(''2'', ''a''), (''3'', ''b'')])
   \<and> table_rows ''1.3.6.1.4.1.4115.1.20.1.1.4.12.1'' [(''2'', ''a''), (''3'', ''b'')]
        [(''1.3.6.1.4.1.4115.1.20.1.1.4.12.1.3.2'', JStr ''y''),
         (''1.3.6.1.4.1.4115.1.20.1.1.4.12.1.2.10'', JStr ''z''),
         (''1.3.6.1.4.1.4115.1.20.1.1.4.12.1.9.7'', JStr ''q''),
         (''1.3.6.1.4.1.4115.1.20.1.1.4.12.1.2.2'', JStr ''x'')] =
      Inr [\<lparr>row_idx = 2, cells = [(''a'', JStr ''x''), (''b'', JStr ''y'')]\<rparr>,
           \<lparr>row_idx = 10, cells = [(''a'', JStr ''z''), (''b'', JNull)]\<rparr>]
   \<and> (\<exists>rows. table_rows ''1.3.6.1.4.1.4115.1.20.1.1.4.12.1'' [(''2'', ''a''), (''3'', ''b'')]
        [(''1.3.6.1.4.1.4115.1.20.1.1.4.12.1.3.2'', JStr ''y''),
         (''1.3.6.1.4.1.4115.1.20.1.1.4.12.1.2.10'', JStr ''z''),
         (''1.3.6.1.4.1.4115.1.20.1.1.4.12.1.9.7'', JStr ''q''),
         (''1.3.6.1.4.1.4115.1.20.1.1.4.12.1.2.2'', JStr ''x'')] = Inr rows
        \<and> sorted_wrt (<) (map row_idx rows)
        \<and> (\<forall>row\<in>set rows. map fst (cells row) = [''a'', ''b'']))"
proof -
  let ?T = "''1.3.6.1.4.1.4115.1.20.1.1.4.12.1''"
  let ?C = "[(''2'', ''a''), (''3'', ''b'')]"
  let ?W = "[(''1.3.6.1.4.1.4115.1.20.1.1.4.12.1.3.2'', JStr ''y''),
         (''1.3.6.1.4.1.4115.1.20.1.1.4.12.1.2.10'', JStr ''z''),
         (''1.3.6.1.4.1.4115.1.20.1.1.4.12.1.9.7'', JStr ''q''),
         (''1.3.6.1.4.1.4115.1.20.1.1.4.12.1.2.2'', JStr ''x'')]"
  have ok: "namedtuple_ok (map snd ?C @ [''row_idx''])"
    by (rule example_namedtuple)
  have dict: "distinct (map fst ?C)" by simp
  have ints: "\<forall>x\<in>set ?W. survives ?T ?C x \<longrightarrow> (\<exists>r. row_num ?T (fst x) = Inr r)"
    by (simp add: survives_def col_num_def row_num_def py_int_def py_isspace_def is_digit_def
                  digit_value_def digits_value_def)
  have tr: "table_rows ?T ?C ?W =
      Inr [\<lparr>row_idx = 2, cells = [(''a'', JStr ''x''), (''b'', JStr ''y'')]\<rparr>,
           \<lparr>row_idx = 10, cells = [(''a'', JStr ''z''), (''b'', JNull)]\<rparr>]"
    by code_simp
  from table_rows_spec [of ?C ?W ?T] ok dict ints
  have "\<exists>rows. table_rows ?T ?C ?W = Inr rows
        \<and> sorted_wrt (<) (map row_idx rows)
        \<and> (\<forall>row\<in>set rows. map fst (cells row) = map snd ?C)"
    by blast
  then have "\<exists>rows. table_rows ?T ?C ?W = Inr rows
        \<and> sorted_wrt (<) (map row_idx rows)
        \<and> (\<forall>row\<in>set rows. map fst (cells row) = [''a'', ''b''])"
    by simp
  with ok dict tr show ?thesis by blast
qed

end
